theory Spec2Isabelle
  imports Main
begin

section \<open>Graph ids, edges, vertices and the VariableEdge value\<close>

text \<open>
  A \<open>graphid\<close> is an \<open>int64\<close>; the code only stores and compares graph ids, so
  they are modelled as integers.

  An \<open>edge\<close> value carries the three ids that \<open>create_edge(id, startid, endid, ...)\<close>
  receives in \<open>create_variable_edge\<close>; a \<open>vertex\<close> value carries the id that
  \<open>create_vertex(id, ...)\<close> receives. Both store their id as the \<open>int64\<close> at
  \<open>children[0]\<close> (\<open>build_vle_context\<close> and \<open>_ag_enforce_edge_uniqueness\<close> read
  it with \<open>*((int64 *)(&x->children[0]))\<close>); ids are in the range of \<open>int64\<close>.

  A \<open>VariableEdge\<close> is the sequence of entries written after the entry count
  \<open>children[0]\<close>: \<open>create_variable_edge\<close> and \<open>build_variable_edge\<close> write an
  edge at every even position and a vertex at every odd position.
\<close>

type_synonym graphid = int

record edge =
  edge_id :: graphid
  edge_start_id :: graphid
  edge_end_id :: graphid

record vertex =
  vertex_id :: graphid

datatype ve_entry = EdgeEntry edge | VertexEntry vertex

type_synonym VariableEdge = "ve_entry list"

text \<open>The \<open>int64\<close> found at \<open>children[0]\<close> of an entry.\<close>

fun entry_id :: "ve_entry \<Rightarrow> graphid" where
  "entry_id (EdgeEntry e) = edge_id e"
| "entry_id (VertexEntry v) = vertex_id v"

section \<open>The entries of an edge and of a vertex\<close>

text \<open>
  \<open>vertex.h\<close> declares \<open>typedef uint32 ventry\<close> and
  \<open>ventry children[FLEXIBLE_ARRAY_MEMBER]\<close>: the entries of a vertex are 32 bits wide,
  and the \<open>int64\<close> id that \<open>*((int64 *)(&v->children[0]))\<close> reads occupies the two
  entries \<open>children[0]\<close> and \<open>children[1]\<close>. The entries of an edge have the same
  width: its id is read with \<open>*((int64 *)(&e->children[0]))\<close>, and the code looks for
  its start id at \<open>children[2]\<close> and for its end id at \<open>children[4]\<close>, two entries
  further each.

  \<open>int64_entries x\<close> are the two entries that hold the \<open>int64\<close> \<open>x\<close>, each as the
  unsigned 32-bit number it is, the low half first (little-endian byte order, as on
  x86-64).
\<close>

definition int64_entries :: "graphid \<Rightarrow> int list" where
  "int64_entries x = [x mod 2 ^ 32, (x div 2 ^ 32) mod 2 ^ 32]"

definition edge_children :: "edge \<Rightarrow> int list" where
  "edge_children e =
     int64_entries (edge_id e) @ int64_entries (edge_start_id e) @ int64_entries (edge_end_id e)"

definition vertex_children :: "vertex \<Rightarrow> int list" where
  "vertex_children v = int64_entries (vertex_id v)"

text \<open>
  \<open>*((int64 *)(&x->children[k]))\<close>: the \<open>int64\<close> whose two halves are the entries
  \<open>k\<close> and \<open>k + 1\<close>.
\<close>

definition int64_at :: "int list \<Rightarrow> nat \<Rightarrow> int" where
  "int64_at children k =
     (let u = children ! k + 2 ^ 32 * children ! (k + 1)
      in if u < 2 ^ 63 then u else u - 2 ^ 64)"

section \<open>The endpoint predicates of \<open>variable_edge.c\<close>\<close>

text \<open>
  The predicates read \<open>(int64)e->children[k]\<close> of an edge and
  \<open>(int64)v->children[0]\<close> of a vertex: the conversion to \<open>int64\<close> of the one
  unsigned 32-bit entry at that index, here \<open>edge_children e ! k\<close> and
  \<open>vertex_children v ! 0\<close>.

  \<open>edge *e = &ve->children[1]\<close> is the first entry; the loop
  \<open>for (i = 0; i < ve->children[0] - 1; i++, ptr += VARSIZE(ptr))\<close> stops at the
  last entry. A read that does not land on an edge entry has no defined value in C and is
  \<open>None\<close> here.
\<close>

definition first_edge :: "VariableEdge \<Rightarrow> edge option" where
  "first_edge ve = (case ve of EdgeEntry e # _ \<Rightarrow> Some e | _ \<Rightarrow> None)"

fun skip_entries :: "nat \<Rightarrow> VariableEdge \<Rightarrow> VariableEdge" where
  "skip_entries 0 ve = ve"
| "skip_entries (Suc n) [] = []"
| "skip_entries (Suc n) (x # xs) = skip_entries n xs"

definition last_edge :: "VariableEdge \<Rightarrow> edge option" where
  "last_edge ve = first_edge (skip_entries (length ve - 1) ve)"

definition gid_is_first_startid :: "graphid \<Rightarrow> VariableEdge \<Rightarrow> bool option" where
  "gid_is_first_startid gid ve = map_option (\<lambda>e. edge_children e ! 2 = gid) (first_edge ve)"

definition vertex_is_first_start_vertex :: "vertex \<Rightarrow> VariableEdge \<Rightarrow> bool option" where
  "vertex_is_first_start_vertex v ve = Some True"

definition gid_is_first_endid :: "graphid \<Rightarrow> VariableEdge \<Rightarrow> bool option" where
  "gid_is_first_endid gid ve = Some True"

definition vertex_is_first_end_vertex :: "vertex \<Rightarrow> VariableEdge \<Rightarrow> bool option" where
  "vertex_is_first_end_vertex v ve = Some True"

definition gid_is_last_startid :: "graphid \<Rightarrow> VariableEdge \<Rightarrow> bool option" where
  "gid_is_last_startid gid ve = map_option (\<lambda>e. edge_children e ! 2 = gid) (last_edge ve)"

definition vertex_is_last_start_vertex :: "vertex \<Rightarrow> VariableEdge \<Rightarrow> bool option" where
  "vertex_is_last_start_vertex v ve =
     map_option (\<lambda>e. edge_children e ! 2 = vertex_children v ! 0) (last_edge ve)"

definition gid_is_last_endid :: "graphid \<Rightarrow> VariableEdge \<Rightarrow> bool option" where
  "gid_is_last_endid gid ve = map_option (\<lambda>e. edge_children e ! 4 = gid) (last_edge ve)"

definition vertex_is_last_end_vertex :: "vertex \<Rightarrow> VariableEdge \<Rightarrow> bool option" where
  "vertex_is_last_end_vertex v ve =
     map_option (\<lambda>e. edge_children e ! 4 = vertex_children v ! 0) (last_edge ve)"

section \<open>\<open>_ag_enforce_edge_uniqueness\<close>\<close>

text \<open>
  One variadic argument: its \<open>nulls[i]\<close> flag is tested first, then its type oid
  (\<open>GRAPHIDOID\<close>, \<open>VARIABLEEDGEOID\<close>, anything else is skipped).
\<close>

datatype variadic_arg =
    NullArg
  | GraphidArg graphid
  | VariableEdgeArg VariableEdge
  | OtherArg

datatype ag_error = NullArgument nat

text \<open>
  The inner loop over a VariableEdge: entries at odd positions are skipped, the id of an
  entry at an even position is entered into \<open>exists_hash\<close> (the list \<open>seen\<close>);
  \<open>None\<close> is \<open>PG_RETURN_BOOL(false)\<close> on a key that was already there.
\<close>

fun ve_loop :: "nat \<Rightarrow> VariableEdge \<Rightarrow> graphid list \<Rightarrow> graphid list option" where
  "ve_loop i [] seen = Some seen"
| "ve_loop i (x # xs) seen =
     (if i mod 2 = 1 then ve_loop (Suc i) xs seen
      else if entry_id x \<in> set seen then None
      else ve_loop (Suc i) xs (entry_id x # seen))"

fun enforce_loop :: "nat \<Rightarrow> variadic_arg list \<Rightarrow> graphid list \<Rightarrow> ag_error + bool" where
  "enforce_loop i [] seen = Inr True"
| "enforce_loop i (NullArg # as) seen = Inl (NullArgument i)"
| "enforce_loop i (GraphidArg g # as) seen =
     (if g \<in> set seen then Inr False else enforce_loop (Suc i) as (g # seen))"
| "enforce_loop i (VariableEdgeArg ve # as) seen =
     (case ve_loop 0 ve seen of
        None \<Rightarrow> Inr False
      | Some seen' \<Rightarrow> enforce_loop (Suc i) as seen')"
| "enforce_loop i (OtherArg # as) seen = enforce_loop (Suc i) as seen"

definition ag_enforce_edge_uniqueness :: "variadic_arg list \<Rightarrow> ag_error + bool" where
  "ag_enforce_edge_uniqueness args = enforce_loop 0 args []"

text \<open>
  The ids an argument list contributes, as the claim words it: a graphid contributes
  itself, a VariableEdge the id of each of its edges (the entries at even positions).
\<close>

fun ve_edge_ids :: "VariableEdge \<Rightarrow> graphid list" where
  "ve_edge_ids [] = []"
| "ve_edge_ids [x] = [entry_id x]"
| "ve_edge_ids (x # y # xs) = entry_id x # ve_edge_ids xs"

text \<open>
  The VariableEdge values that \<open>create_variable_edge\<close> and \<open>build_variable_edge\<close>
  build alternate between edges and vertices, beginning with an edge; for them the
  entries at even positions are exactly the edges.
\<close>

fun alternating :: "VariableEdge \<Rightarrow> bool" where
  "alternating [] = True"
| "alternating [EdgeEntry e] = True"
| "alternating (EdgeEntry e # VertexEntry v # rest) = alternating rest"
| "alternating ve = False"

fun edges_of :: "VariableEdge \<Rightarrow> edge list" where
  "edges_of [] = []"
| "edges_of (EdgeEntry e # rest) = e # edges_of rest"
| "edges_of (VertexEntry v # rest) = edges_of rest"

fun arg_ids :: "variadic_arg \<Rightarrow> graphid list" where
  "arg_ids NullArg = []"
| "arg_ids (GraphidArg g) = [g]"
| "arg_ids (VariableEdgeArg ve) = ve_edge_ids ve"
| "arg_ids OtherArg = []"

definition collected_ids :: "variadic_arg list \<Rightarrow> graphid list" where
  "collected_ids args = concat (map arg_ids args)"

definition before_null :: "variadic_arg list \<Rightarrow> variadic_arg list" where
  "before_null args = takeWhile (\<lambda>a. a \<noteq> NullArg) args"

text \<open>The ids the inner loop enters when it starts at index \<open>i\<close>.\<close>

fun ve_ids_from :: "nat \<Rightarrow> VariableEdge \<Rightarrow> graphid list" where
  "ve_ids_from i [] = []"
| "ve_ids_from i (x # xs) = (if i mod 2 = 1 then ve_ids_from (Suc i) xs else entry_id x # ve_ids_from (Suc i) xs)"

section \<open>Parse nodes and the expression builders of the grammar\<close>

text \<open>
  The parse nodes the expression actions build and inspect. The \<open>location\<close> field of
  every node is left out: no action below reads it. \<open>OtherNode\<close> stands for the parse
  nodes that are not listed.
  An \<open>A_Expr\<close> holds its kind, its operator name (a list of strings), its left operand
  (\<open>NULL\<close> for a prefix operator) and its right operand; an \<open>A_Indices\<close> holds
  \<open>lidx\<close> and \<open>uidx\<close>, each possibly \<open>NULL\<close>; a \<open>FuncCall\<close> holds the function
  name and the argument list.
\<close>

datatype A_Expr_Kind = AEXPR_OP | AEXPR_IN

datatype BoolExprType = AND_EXPR | OR_EXPR | NOT_EXPR

datatype a_const_value = Integer int | Float string | String string | Null

datatype node =
    A_Expr A_Expr_Kind "string list" "node option" node
  | BoolExpr BoolExprType "node list"
  | A_Const a_const_value
  | ColumnRef "string list"
  | A_Indices "node option" "node option"
  | FuncCall "string list" "node list"
  | OtherNode string

definition makeSimpleA_Expr :: "A_Expr_Kind \<Rightarrow> string \<Rightarrow> node option \<Rightarrow> node \<Rightarrow> node" where
  "makeSimpleA_Expr kind name lexpr rexpr = A_Expr kind [name] lexpr rexpr"




definition makeBoolExpr :: "BoolExprType \<Rightarrow> node list \<Rightarrow> node" where
  "makeBoolExpr boolop args = BoolExpr boolop args"

text \<open>
  \<open>make_or_expr\<close> and \<open>make_and_expr\<close>: when the left operand is a \<open>BoolExpr\<close> of the
  same connective, the right operand is appended to its argument list and that node is
  returned; otherwise a new two-argument node is made.
\<close>

fun make_or_expr :: "node \<Rightarrow> node \<Rightarrow> node" where
  "make_or_expr (BoolExpr boolop args) rexpr =
     (if boolop = OR_EXPR then BoolExpr boolop (args @ [rexpr])
      else makeBoolExpr OR_EXPR [BoolExpr boolop args, rexpr])"
| "make_or_expr lexpr rexpr = makeBoolExpr OR_EXPR [lexpr, rexpr]"

fun make_and_expr :: "node \<Rightarrow> node \<Rightarrow> node" where
  "make_and_expr (BoolExpr boolop args) rexpr =
     (if boolop = AND_EXPR then BoolExpr boolop (args @ [rexpr])
      else makeBoolExpr AND_EXPR [BoolExpr boolop args, rexpr])"
| "make_and_expr lexpr rexpr = makeBoolExpr AND_EXPR [lexpr, rexpr]"

definition make_xor_expr :: "node \<Rightarrow> node \<Rightarrow> node" where
  "make_xor_expr lexpr rexpr =
     (let aorb = makeBoolExpr OR_EXPR [lexpr, rexpr];
          notaandb = makeBoolExpr AND_EXPR [lexpr, rexpr];
          notaandb = makeBoolExpr NOT_EXPR [notaandb]
      in makeBoolExpr AND_EXPR [aorb, notaandb])"

definition make_not_expr :: "node \<Rightarrow> node" where
  "make_not_expr expr = makeBoolExpr NOT_EXPR [expr]"

text \<open>
  \<open>is_A_Expr_a_comparison_operation\<close>: an error for an operator name that is not a single
  string, otherwise the chain of \<open>strcmp\<close> tests, in the order and with the literals of
  the source.
\<close>

datatype parse_error = QualifiedComparisonOperator

definition is_A_Expr_a_comparison_operation :: "string list \<Rightarrow> parse_error + bool" where
  "is_A_Expr_a_comparison_operation name =
     (if length name \<noteq> 1 then Inl QualifiedComparisonOperator
      else let opr_name = hd name in
        if opr_name = ''<'' then Inr True
        else if opr_name = ''>'' then Inr True
        else if opr_name = ''<='' then Inr True
        else if opr_name = ''=>'' then Inr True
        else if opr_name = ''='' then Inr True
        else if opr_name = ''<>'' then Inr True
        else Inr False)"

text \<open>
  \<open>build_comparison_expression\<close>. Case 1 is tried first; Case 2 is a separate \<open>if\<close>,
  which cannot fire after Case 1 since the left node is then an \<open>A_Expr\<close>; Case 3 applies
  when \<open>result_expr\<close> is still \<open>NULL\<close>. \<open>llast\<close> of an empty argument list does not
  return in C; no \<open>BoolExpr\<close> the grammar builds has one, and the model falls through to
  Case 3 there.
\<close>

fun build_comparison_expression :: "node \<Rightarrow> node \<Rightarrow> string \<Rightarrow> parse_error + node" where
  "build_comparison_expression (A_Expr kind name lexpr rexpr) right_grammar_node opr_name =
     (case is_A_Expr_a_comparison_operation name of
        Inl err \<Rightarrow> Inl err
      | Inr True \<Rightarrow>
          Inr (make_and_expr (A_Expr kind name lexpr rexpr)
                 (makeSimpleA_Expr AEXPR_OP opr_name (Some rexpr) right_grammar_node))
      | Inr False \<Rightarrow>
          Inr (makeSimpleA_Expr AEXPR_OP opr_name (Some (A_Expr kind name lexpr rexpr))
                 right_grammar_node))"
| "build_comparison_expression (BoolExpr boolop args) right_grammar_node opr_name =
     (if boolop = AND_EXPR \<and> args \<noteq> [] then
        (case last args of
           A_Expr kind name lexpr rexpr \<Rightarrow>
             (case is_A_Expr_a_comparison_operation name of
                Inl err \<Rightarrow> Inl err
              | Inr True \<Rightarrow>
                  Inr (make_and_expr (BoolExpr boolop args)
                         (makeSimpleA_Expr AEXPR_OP opr_name (Some rexpr) right_grammar_node))
              | Inr False \<Rightarrow>
                  Inr (makeSimpleA_Expr AEXPR_OP opr_name (Some (BoolExpr boolop args))
                         right_grammar_node))
         | _ \<Rightarrow>
             Inr (makeSimpleA_Expr AEXPR_OP opr_name (Some (BoolExpr boolop args))
                    right_grammar_node))
      else Inr (makeSimpleA_Expr AEXPR_OP opr_name (Some (BoolExpr boolop args))
                  right_grammar_node))"
| "build_comparison_expression left_grammar_node right_grammar_node opr_name =
     Inr (makeSimpleA_Expr AEXPR_OP opr_name (Some left_grammar_node) right_grammar_node)"

text \<open>
  The operator names the grammar passes to \<open>build_comparison_expression\<close>, one per
  comparison rule of \<open>expr\<close>.
\<close>

definition comparison_operators :: "string list" where
  "comparison_operators = [''='', ''<>'', ''<'', ''<='', ''>'', ''>='']"

text \<open>
  Flattened trees: no \<open>AND\<close> node has an \<open>AND\<close> node among its arguments and no
  \<open>OR\<close> node an \<open>OR\<close> node, anywhere in the tree.
\<close>

fun is_boolop :: "BoolExprType \<Rightarrow> node \<Rightarrow> bool" where
  "is_boolop b (BoolExpr b' args) = (b = b')"
| "is_boolop b n = False"

fun nests :: "BoolExprType \<Rightarrow> node \<Rightarrow> bool" where
  "nests AND_EXPR n = is_boolop AND_EXPR n"
| "nests OR_EXPR n = is_boolop OR_EXPR n"
| "nests NOT_EXPR n = False"

fun flattened :: "node \<Rightarrow> bool" where
  "flattened (BoolExpr b args) = list_all (\<lambda>a. flattened a \<and> \<not> nests b a) args"
| "flattened (A_Expr kind name lexpr rexpr) =
     ((case lexpr of None \<Rightarrow> True | Some l \<Rightarrow> flattened l) \<and> flattened rexpr)"
| "flattened n = True"

section \<open>Variable-length ranges: the grammar actions and the \<open>vle\<close> call of the transformer\<close>








text \<open>
  The direction of a relationship pattern. The enumeration is declared in a header that
  is not among the sources; \<open>CYPHER_REL_DIR_OTHER\<close> stands for any integer that is none
  of its three values (the \<open>default\<close> branch of \<open>get_next_vertex\<close>).
\<close>

datatype cypher_rel_dir =
    CYPHER_REL_DIR_NONE
  | CYPHER_REL_DIR_LEFT
  | CYPHER_REL_DIR_RIGHT
  | CYPHER_REL_DIR_OTHER

record cypher_node =
  node_name :: "string option"
  node_label :: "string option"
  node_props :: "node option"

record cypher_relationship =
  rel_name :: "string option"
  rel_label :: "string option"
  rel_varlen :: "node option"
  rel_props :: "node option"
  rel_dir :: cypher_rel_dir










text \<open>
  The value the SQL function \<open>vle\<close> finds in its third or fourth argument: NULL, a
  gtype integer, or anything else.
\<close>

datatype gtype_arg = ArgNull | ArgInteger int | ArgOther

section \<open>The VLE traversal engine (\<open>age_vle.c\<close>)\<close>

text \<open>
  The global graph context is declared outside the sources; the engine reads it through
  \<open>get_vertex_entry\<close>, \<open>get_edge_entry\<close> and the accessors of an entry. It is a
  parameter of the model: two finite tables looked up by id. A vertex entry has its id
  and its three edge lists; an edge entry has its two end points, the name of its label
  table and its properties (of a type \<open>'p\<close> left open).
\<close>

record vertex_entry =
  vertex_entry_id :: graphid
  edges_in :: "graphid list"
  edges_out :: "graphid list"
  edges_self :: "graphid list"

record 'p edge_entry =
  start_vertex_id :: graphid
  end_vertex_id :: graphid
  edge_label_name :: string
  edge_properties :: 'p

record 'p graph_context =
  vertex_table :: "(graphid \<times> vertex_entry) list"
  edge_table :: "(graphid \<times> 'p edge_entry) list"

definition get_vertex_entry :: "'p graph_context \<Rightarrow> graphid \<Rightarrow> vertex_entry option" where
  "get_vertex_entry g vid = map_of (vertex_table g) vid"

definition get_edge_entry :: "'p graph_context \<Rightarrow> graphid \<Rightarrow> 'p edge_entry option" where
  "get_edge_entry g eid = map_of (edge_table g) eid"

text \<open>
  \<open>path_finding_context\<close>: the fields fixed by \<open>build_vle_context\<close> are kept in one
  record, the four structures the traversal changes in another (\<open>dfs_state\<close>). The
  three queues are used as stacks, the head of the list being the top. The edge state
  hashtable gives the \<open>visited\<close> flag of an edge id; \<open>get_edge_state\<close> creates a
  missing entry with \<open>visited = false\<close>.
\<close>

record 'p path_finding_context =
  ggctx :: "'p graph_context"
  vsid :: graphid
  veid :: graphid
  label_name :: "string option"
  properties :: "'p option"
  lidx :: int
  uidx :: int
  uidx_infinite :: bool
  edge_direction :: cypher_rel_dir

record dfs_state =
  edge_state_hashtable :: "graphid \<Rightarrow> bool"
  dfs_vertex_queue :: "graphid list"
  dfs_edge_queue :: "graphid list"
  dfs_path_queue :: "graphid list"

text \<open>
  Where the C code would dereference \<open>NULL\<close> (a missing entry, the top of an empty
  stack) or call \<open>elog(ERROR, ...)\<close>, the model returns an error.
\<close>

datatype vle_error =
    EmptyQueue
  | MissingVertexEntry
  | MissingEdgeEntry
  | NoParentMatch
  | UnknownEdgeDirection
  | InvalidArgument

text \<open>
  \<open>check_edge_constraints\<close>. The parameter \<open>contains\<close> stands for the property test
  of the source: the constraint has no more pairs than the edge's properties and
  \<open>gtype_deep_contains\<close> holds. Its first argument is the edge's properties, its second
  the constraint.
\<close>

definition check_edge_constraints ::
  "('p \<Rightarrow> 'p \<Rightarrow> bool) \<Rightarrow> 'p path_finding_context \<Rightarrow> 'p edge_entry \<Rightarrow> bool" where
  "check_edge_constraints contains path_ctx ee =
     (if label_name path_ctx \<noteq> None \<and> the (label_name path_ctx) \<noteq> edge_label_name ee
      then False
      else (case properties path_ctx of
              None \<Rightarrow> True
            | Some constraint \<Rightarrow> contains (edge_properties ee) constraint))"

definition do_vsid_and_veid_exist :: "'p path_finding_context \<Rightarrow> bool" where
  "do_vsid_and_veid_exist path_ctx =
     (get_vertex_entry (ggctx path_ctx) (vsid path_ctx) \<noteq> None
      \<and> get_vertex_entry (ggctx path_ctx) (veid path_ctx) \<noteq> None)"

definition get_next_vertex ::
  "'p path_finding_context \<Rightarrow> dfs_state \<Rightarrow> 'p edge_entry \<Rightarrow> vle_error + graphid" where
  "get_next_vertex path_ctx st ee =
     (case edge_direction path_ctx of
        CYPHER_REL_DIR_RIGHT \<Rightarrow> Inr (end_vertex_id ee)
      | CYPHER_REL_DIR_LEFT \<Rightarrow> Inr (start_vertex_id ee)
      | CYPHER_REL_DIR_NONE \<Rightarrow>
          (case dfs_vertex_queue st of
             [] \<Rightarrow> Inl EmptyQueue
           | parent_vertex_id # _ \<Rightarrow>
               if start_vertex_id ee = parent_vertex_id then Inr (end_vertex_id ee)
               else if end_vertex_id ee = parent_vertex_id then Inr (start_vertex_id ee)
               else Inl NoParentMatch)
      | CYPHER_REL_DIR_OTHER \<Rightarrow> Inl UnknownEdgeDirection)"

text \<open>
  \<open>add_edges\<close>. The \<open>while (edge_out || edge_in || edge_self)\<close> loop takes the
  out-list first, then the in-list, then the self-loop list, so it runs over their
  concatenation; \<open>source_id\<close> is \<open>get_vertex_entry_id(ve)\<close>.
\<close>

fun add_edges_loop ::
  "('p \<Rightarrow> 'p \<Rightarrow> bool) \<Rightarrow> 'p path_finding_context \<Rightarrow> graphid \<Rightarrow> graphid list \<Rightarrow> dfs_state
     \<Rightarrow> vle_error + dfs_state" where
  "add_edges_loop contains path_ctx source_id [] st = Inr st"
| "add_edges_loop contains path_ctx source_id (eid # rest) st =
     (case get_edge_entry (ggctx path_ctx) eid of
        None \<Rightarrow> Inl MissingEdgeEntry
      | Some ee \<Rightarrow>
          add_edges_loop contains path_ctx source_id rest
            (if \<not> edge_state_hashtable st eid \<and> check_edge_constraints contains path_ctx ee
             then st\<lparr>dfs_vertex_queue :=
                        (if edge_direction path_ctx = CYPHER_REL_DIR_NONE
                         then source_id # dfs_vertex_queue st else dfs_vertex_queue st),
                      dfs_edge_queue := eid # dfs_edge_queue st\<rparr>
             else st))"

definition add_edges ::
  "('p \<Rightarrow> 'p \<Rightarrow> bool) \<Rightarrow> 'p path_finding_context \<Rightarrow> dfs_state \<Rightarrow> graphid
     \<Rightarrow> vle_error + dfs_state" where
  "add_edges contains path_ctx st vid =
     (case get_vertex_entry (ggctx path_ctx) vid of
        None \<Rightarrow> Inl MissingVertexEntry
      | Some ve \<Rightarrow>
          (let edge_out = (if edge_direction path_ctx \<noteq> CYPHER_REL_DIR_LEFT
                           then edges_out ve else []);
               edge_in = (if edge_direction path_ctx \<noteq> CYPHER_REL_DIR_RIGHT
                          then edges_in ve else []);
               edge_self = edges_self ve
           in add_edges_loop contains path_ctx (vertex_entry_id ve)
                (edge_out @ edge_in @ edge_self) st))"

definition load_initial_dfs_queues ::
  "('p \<Rightarrow> 'p \<Rightarrow> bool) \<Rightarrow> 'p path_finding_context \<Rightarrow> dfs_state \<Rightarrow> vle_error + dfs_state" where
  "load_initial_dfs_queues contains path_ctx st =
     (if \<not> do_vsid_and_veid_exist path_ctx then Inr st
      else add_edges contains path_ctx st (vsid path_ctx))"

text \<open>
  One iteration of the \<open>while\<close> loop of \<open>dfs_find_a_path_between\<close>, entered with a
  non-empty edge stack. The result is the \<open>found\<close> flag tested at the end of the body
  (\<open>True\<close>: \<open>return true\<close>; \<open>False\<close>: the loop goes on, also after a \<open>continue\<close>)
  and the state. The body is split at its \<open>if (ese->visited)\<close>:
  \<open>dfs_visited_edge\<close> is the branch taken for an edge that is in use,
  \<open>dfs_new_edge\<close> the rest of the body.
\<close>

definition dfs_visited_edge ::
  "'p path_finding_context \<Rightarrow> dfs_state \<Rightarrow> graphid \<Rightarrow> graphid list
     \<Rightarrow> vle_error + bool \<times> dfs_state" where
  "dfs_visited_edge path_ctx st eid edge_rest =
     (case dfs_path_queue st of
        [] \<Rightarrow> Inl EmptyQueue
      | path_eid # path_rest \<Rightarrow>
          (let st1 = (if eid = path_eid
                      then st\<lparr>dfs_path_queue := path_rest,
                              edge_state_hashtable :=
                                (edge_state_hashtable st)(eid := False)\<rparr>
                      else st);
               st2 = st1\<lparr>dfs_edge_queue := edge_rest\<rparr>
           in if edge_direction path_ctx = CYPHER_REL_DIR_NONE then
                (case dfs_vertex_queue st2 of
                   [] \<Rightarrow> Inl EmptyQueue
                 | _ # vertex_rest \<Rightarrow> Inr (False, st2\<lparr>dfs_vertex_queue := vertex_rest\<rparr>))
              else Inr (False, st2)))"

definition dfs_new_edge ::
  "('p \<Rightarrow> 'p \<Rightarrow> bool) \<Rightarrow> 'p path_finding_context \<Rightarrow> dfs_state \<Rightarrow> graphid
     \<Rightarrow> vle_error + bool \<times> dfs_state" where
  "dfs_new_edge contains path_ctx st eid =
     (let st1 = st\<lparr>edge_state_hashtable := (edge_state_hashtable st)(eid := True),
                   dfs_path_queue := eid # dfs_path_queue st\<rparr>
      in case get_edge_entry (ggctx path_ctx) eid of
           None \<Rightarrow> Inl MissingEdgeEntry
         | Some ee \<Rightarrow>
             (case get_next_vertex path_ctx st1 ee of
                Inl err \<Rightarrow> Inl err
              | Inr next_vertex_id \<Rightarrow>
                  (let size = int (length (dfs_path_queue st1));
                       found = (next_vertex_id = veid path_ctx \<and> size \<ge> lidx path_ctx
                                \<and> (uidx_infinite path_ctx \<or> size \<le> uidx path_ctx))
                   in if next_vertex_id = veid path_ctx \<and> \<not> uidx_infinite path_ctx
                         \<and> size > uidx path_ctx
                      then Inr (False, st1)
                      else if uidx_infinite path_ctx \<or> size < uidx path_ctx
                      then (case add_edges contains path_ctx st1 next_vertex_id of
                              Inl err \<Rightarrow> Inl err
                            | Inr st2 \<Rightarrow> Inr (found, st2))
                      else Inr (found, st1))))"

definition dfs_iteration ::
  "('p \<Rightarrow> 'p \<Rightarrow> bool) \<Rightarrow> 'p path_finding_context \<Rightarrow> dfs_state
     \<Rightarrow> vle_error + bool \<times> dfs_state" where
  "dfs_iteration contains path_ctx st =
     (case dfs_edge_queue st of
        [] \<Rightarrow> Inl EmptyQueue
      | eid # edge_rest \<Rightarrow>
          if edge_state_hashtable st eid then dfs_visited_edge path_ctx st eid edge_rest
          else dfs_new_edge contains path_ctx st eid)"

text \<open>
  \<open>dfs_find_a_path_between\<close>: the loop, with a bound on the number of iterations;
  \<open>None\<close> means that the bound was reached before the loop returned.
\<close>

fun dfs_find_a_path_between ::
  "nat \<Rightarrow> ('p \<Rightarrow> 'p \<Rightarrow> bool) \<Rightarrow> 'p path_finding_context \<Rightarrow> dfs_state
     \<Rightarrow> (vle_error + bool \<times> dfs_state) option" where
  "dfs_find_a_path_between 0 contains path_ctx st = None"
| "dfs_find_a_path_between (Suc fuel) contains path_ctx st =
     (if dfs_edge_queue st = [] then Some (Inr (False, st))
      else (case dfs_iteration contains path_ctx st of
              Inl err \<Rightarrow> Some (Inl err)
            | Inr (found, st') \<Rightarrow>
                if found then Some (Inr (True, st'))
                else dfs_find_a_path_between fuel contains path_ctx st'))"

text \<open>
  \<open>build_path_container\<close>: the graphid array \<open>start vertex, first edge, ..., nth edge,
  end vertex\<close>. The source writes the path stack into the odd positions from the back
  and then fills the even positions from the front, each vertex being the end of the
  edge before it that is not the vertex before it; \<open>fill_path\<close> produces the same
  array in one pass over the path from its first edge.
\<close>

fun fill_path :: "'p graph_context \<Rightarrow> graphid \<Rightarrow> graphid list \<Rightarrow> vle_error + graphid list" where
  "fill_path g vid [] = Inr []"
| "fill_path g vid (eid # rest) =
     (case get_edge_entry g eid of
        None \<Rightarrow> Inl MissingEdgeEntry
      | Some ee \<Rightarrow>
          (let vid' = (if vid = start_vertex_id ee then end_vertex_id ee
                       else start_vertex_id ee)
           in case fill_path g vid' rest of
                Inl err \<Rightarrow> Inl err
              | Inr arr \<Rightarrow> Inr (eid # vid' # arr)))"

definition build_path_container ::
  "'p path_finding_context \<Rightarrow> dfs_state \<Rightarrow> vle_error + graphid list" where
  "build_path_container path_ctx st =
     (case fill_path (ggctx path_ctx) (vsid path_ctx) (rev (dfs_path_queue st)) of
        Inl err \<Rightarrow> Inl err
      | Inr arr \<Rightarrow> Inr (vsid path_ctx # arr))"

text \<open>
  The range arguments in \<open>build_vle_context\<close>: a NULL lower bound is 1, a NULL upper
  bound sets \<open>uidx_infinite\<close> (and \<open>uidx = -1\<close>); \<open>get_gtype_value\<close> raises an error
  for a value that is not an integer.
\<close>

definition vle_range ::
  "gtype_arg \<Rightarrow> gtype_arg \<Rightarrow> vle_error + int \<times> int \<times> bool" where
  "vle_range arg3 arg4 =
     (case (case arg3 of ArgNull \<Rightarrow> Inr 1 | ArgInteger i \<Rightarrow> Inr i | ArgOther \<Rightarrow> Inl InvalidArgument) of
        Inl err \<Rightarrow> Inl err
      | Inr lo \<Rightarrow>
          (case arg4 of
             ArgNull \<Rightarrow> Inr (lo, - 1, True)
           | ArgInteger i \<Rightarrow> Inr (lo, i, False)
           | ArgOther \<Rightarrow> Inl InvalidArgument))"

text \<open>The arguments of \<open>gtype_vle\<close> that \<open>build_vle_context\<close> reads.\<close>

record 'p vle_args =
  arg_graph :: "'p graph_context"
  arg_start :: vertex
  arg_end :: vertex
  arg_lidx :: gtype_arg
  arg_uidx :: gtype_arg
  arg_direction :: cypher_rel_dir
  arg_label :: "string option"
  arg_properties :: "'p option"

definition build_vle_context ::
  "('p \<Rightarrow> 'p \<Rightarrow> bool) \<Rightarrow> 'p vle_args \<Rightarrow> vle_error + 'p path_finding_context \<times> dfs_state" where
  "build_vle_context contains args =
     (case vle_range (arg_lidx args) (arg_uidx args) of
        Inl err \<Rightarrow> Inl err
      | Inr (lo, hi, unbounded) \<Rightarrow>
          (let path_ctx = \<lparr>ggctx = arg_graph args,
                           vsid = vertex_id (arg_start args),
                           veid = vertex_id (arg_end args),
                           label_name = arg_label args,
                           properties = arg_properties args,
                           lidx = lo, uidx = hi, uidx_infinite = unbounded,
                           edge_direction = arg_direction args\<rparr>;
               st = \<lparr>edge_state_hashtable = (\<lambda>e. False),
                     dfs_vertex_queue = [], dfs_edge_queue = [], dfs_path_queue = []\<rparr>
           in case load_initial_dfs_queues contains path_ctx st of
                Inl err \<Rightarrow> Inl err
              | Inr st0 \<Rightarrow> Inr (path_ctx, st0)))"

text \<open>
  \<open>gtype_vle\<close>, the part done on every call: one run of \<open>dfs_find_a_path_between\<close>,
  then either the path container of the path found (\<open>SRF_RETURN_NEXT\<close>) or the end of
  the set (\<open>SRF_RETURN_DONE\<close>).
\<close>

datatype srf_result = SRF_RETURN_NEXT "graphid list" | SRF_RETURN_DONE

definition gtype_vle_call ::
  "nat \<Rightarrow> ('p \<Rightarrow> 'p \<Rightarrow> bool) \<Rightarrow> 'p path_finding_context \<Rightarrow> dfs_state
     \<Rightarrow> (vle_error + srf_result \<times> dfs_state) option" where
  "gtype_vle_call fuel contains path_ctx st =
     (case dfs_find_a_path_between fuel contains path_ctx st of
        None \<Rightarrow> None
      | Some (Inl err) \<Rightarrow> Some (Inl err)
      | Some (Inr (found_a_path, st')) \<Rightarrow>
          if found_a_path then
            (case build_path_container path_ctx st' of
               Inl err \<Rightarrow> Some (Inl err)
             | Inr vpc \<Rightarrow> Some (Inr (SRF_RETURN_NEXT vpc, st')))
          else Some (Inr (SRF_RETURN_DONE, st')))"

text \<open>
  The paths yielded by the first \<open>n\<close> calls of the set-returning function, each call
  continuing from the state the call before it left; the sequence ends with the first
  call that does not yield a path.
\<close>

fun gtype_vle_calls ::
  "nat \<Rightarrow> ('p \<Rightarrow> 'p \<Rightarrow> bool) \<Rightarrow> 'p path_finding_context \<Rightarrow> nat \<Rightarrow> dfs_state
     \<Rightarrow> graphid list list" where
  "gtype_vle_calls fuel contains path_ctx 0 st = []"
| "gtype_vle_calls fuel contains path_ctx (Suc n) st =
     (case gtype_vle_call fuel contains path_ctx st of
        Some (Inr (SRF_RETURN_NEXT vpc, st')) \<Rightarrow>
          vpc # gtype_vle_calls fuel contains path_ctx n st'
      | _ \<Rightarrow> [])"

definition gtype_vle ::
  "nat \<Rightarrow> ('p \<Rightarrow> 'p \<Rightarrow> bool) \<Rightarrow> 'p vle_args \<Rightarrow> nat \<Rightarrow> graphid list list" where
  "gtype_vle fuel contains args n =
     (case build_vle_context contains args of
        Inl err \<Rightarrow> []
      | Inr (path_ctx, st0) \<Rightarrow> gtype_vle_calls fuel contains path_ctx n st0)"

text \<open>The edge ids of a path container: the entries at the odd positions.\<close>

fun path_edges :: "graphid list \<Rightarrow> graphid list" where
  "path_edges (v # e # rest) = e # path_edges rest"
| "path_edges arr = []"

section \<open>Well-formed graphs and the invariant of the traversal\<close>

text \<open>
  The adjacency lists of the graph context agree with the edge entries: the entry found
  under an id carries that id, an edge of the out-list of \<open>v\<close> starts at \<open>v\<close>, an
  edge of the in-list ends at \<open>v\<close>, and an edge of the self-loop list does both.
  Nothing is asked of an edge id that has no entry.
\<close>

definition starts_at :: "'p graph_context \<Rightarrow> graphid \<Rightarrow> graphid \<Rightarrow> bool" where
  "starts_at g v e =
     (case get_edge_entry g e of None \<Rightarrow> True | Some ee \<Rightarrow> start_vertex_id ee = v)"

definition ends_at :: "'p graph_context \<Rightarrow> graphid \<Rightarrow> graphid \<Rightarrow> bool" where
  "ends_at g v e =
     (case get_edge_entry g e of None \<Rightarrow> True | Some ee \<Rightarrow> end_vertex_id ee = v)"

definition wf_vertex_entry :: "'p graph_context \<Rightarrow> graphid \<Rightarrow> vertex_entry \<Rightarrow> bool" where
  "wf_vertex_entry g v ve =
     (vertex_entry_id ve = v
      \<and> list_all (starts_at g v) (edges_out ve)
      \<and> list_all (ends_at g v) (edges_in ve)
      \<and> list_all (\<lambda>e. starts_at g v e \<and> ends_at g v e) (edges_self ve))"

definition wf_graph :: "'p graph_context \<Rightarrow> bool" where
  "wf_graph g =
     list_all (\<lambda>v. case get_vertex_entry g v of None \<Rightarrow> True | Some ve \<Rightarrow> wf_vertex_entry g v ve)
       (map fst (vertex_table g))"

text \<open>
  \<open>leaves_from path_ctx v e\<close>: the edge \<open>e\<close> has an entry and can be followed from the
  vertex \<open>v\<close> in the direction of the context. \<open>other_end g v e\<close> is the vertex
  \<open>build_path_container\<close> writes after the edge \<open>e\<close> when \<open>v\<close> stands before it, and
  \<open>path_end path_ctx ps\<close> is the vertex reached from \<open>vsid\<close> along the path stack
  \<open>ps\<close> (its head is the last edge).
\<close>

definition leaves_from :: "'p path_finding_context \<Rightarrow> graphid \<Rightarrow> graphid \<Rightarrow> bool" where
  "leaves_from path_ctx v e =
     (case get_edge_entry (ggctx path_ctx) e of
        None \<Rightarrow> False
      | Some ee \<Rightarrow>
          (case edge_direction path_ctx of
             CYPHER_REL_DIR_RIGHT \<Rightarrow> start_vertex_id ee = v
           | CYPHER_REL_DIR_LEFT \<Rightarrow> end_vertex_id ee = v
           | CYPHER_REL_DIR_NONE \<Rightarrow> start_vertex_id ee = v \<or> end_vertex_id ee = v
           | CYPHER_REL_DIR_OTHER \<Rightarrow> True))"

definition other_end :: "'p graph_context \<Rightarrow> graphid \<Rightarrow> graphid \<Rightarrow> graphid" where
  "other_end g v e =
     (case get_edge_entry g e of
        None \<Rightarrow> v
      | Some ee \<Rightarrow> if v = start_vertex_id ee then end_vertex_id ee else start_vertex_id ee)"

primrec path_end :: "'p path_finding_context \<Rightarrow> graphid list \<Rightarrow> graphid" where
  "path_end path_ctx [] = vsid path_ctx"
| "path_end path_ctx (e # ps) = other_end (ggctx path_ctx) (path_end path_ctx ps) e"

text \<open>
  The vertex stack entries pushed together with the edges \<open>F\<close> of one \<open>add_edges\<close>
  call from the vertex \<open>v\<close>: one copy of \<open>v\<close> per edge when the direction is
  \<open>CYPHER_REL_DIR_NONE\<close>, nothing otherwise.
\<close>

definition sources :: "'p path_finding_context \<Rightarrow> graphid \<Rightarrow> graphid list \<Rightarrow> graphid list" where
  "sources path_ctx v F =
     (if edge_direction path_ctx = CYPHER_REL_DIR_NONE then replicate (length F) v else [])"

text \<open>
  The shape of the stacks. With the path \<open>p\<^sub>1 \<dots> p\<^sub>k\<close>, the edge stack is, from the
  bottom, \<open>F\<^sub>0, p\<^sub>1, F\<^sub>1, \<dots>, p\<^sub>k, F\<^sub>k\<close>: \<open>F\<^sub>i\<close> holds edges that leave the vertex
  reached after \<open>p\<^sub>1 \<dots> p\<^sub>i\<close> and are not among \<open>p\<^sub>1 \<dots> p\<^sub>i\<close>, and \<open>p\<^sub>i\<^sub>+\<^sub>1\<close> was the
  top of \<open>F\<^sub>i\<close> when it was taken. The vertex stack runs in parallel to it.
\<close>

inductive frames ::
  "'p path_finding_context \<Rightarrow> graphid list \<Rightarrow> graphid list \<Rightarrow> graphid list \<Rightarrow> bool"
  for path_ctx :: "'p path_finding_context" where
  frames_base:
    "\<lbrakk>\<forall>e\<in>set F. leaves_from path_ctx (vsid path_ctx) e;
      V = sources path_ctx (vsid path_ctx) F\<rbrakk>
     \<Longrightarrow> frames path_ctx F V []"
| frames_step:
    "\<lbrakk>frames path_ctx (p # es) vs ps; p \<notin> set ps;
      \<forall>e\<in>set F. e \<notin> set (p # ps) \<and> leaves_from path_ctx (path_end path_ctx (p # ps)) e;
      V = sources path_ctx (path_end path_ctx (p # ps)) F\<rbrakk>
     \<Longrightarrow> frames path_ctx (F @ p # es) (V @ vs) (p # ps)"

definition dfs_inv :: "'p path_finding_context \<Rightarrow> dfs_state \<Rightarrow> bool" where
  "dfs_inv path_ctx st =
     (frames path_ctx (dfs_edge_queue st) (dfs_vertex_queue st) (dfs_path_queue st)
      \<and> distinct (dfs_path_queue st)
      \<and> (\<forall>e. edge_state_hashtable st e = (e \<in> set (dfs_path_queue st))))"

text \<open>
  What \<open>dfs_find_a_path_between\<close> has when it returns true: the path stack leads from
  \<open>vsid\<close> to \<open>veid\<close>, its length is within the bounds, and the direction is one of
  the three of the enumeration.
\<close>

definition path_found :: "'p path_finding_context \<Rightarrow> dfs_state \<Rightarrow> bool" where
  "path_found path_ctx st =
     (path_end path_ctx (dfs_path_queue st) = veid path_ctx
      \<and> lidx path_ctx \<le> int (length (dfs_path_queue st))
      \<and> (uidx_infinite path_ctx \<or> int (length (dfs_path_queue st)) \<le> uidx path_ctx)
      \<and> edge_direction path_ctx \<noteq> CYPHER_REL_DIR_OTHER)"

text \<open>
  Every edge of the path stack leaves the vertex the edges below it lead to; and the same
  read from the first edge on, as \<open>build_path_container\<close> walks the path.
\<close>

primrec path_connected :: "'p path_finding_context \<Rightarrow> graphid list \<Rightarrow> bool" where
  "path_connected path_ctx [] = True"
| "path_connected path_ctx (p # ps) =
     (leaves_from path_ctx (path_end path_ctx ps) p \<and> path_connected path_ctx ps)"

primrec walk_from :: "'p path_finding_context \<Rightarrow> graphid \<Rightarrow> graphid list \<Rightarrow> bool" where
  "walk_from path_ctx v [] = True"
| "walk_from path_ctx v (e # es) =
     (leaves_from path_ctx v e \<and> walk_from path_ctx (other_end (ggctx path_ctx) v e) es)"

text \<open>
  A path container is a walk of the graph: every edge at an odd position joins the two
  vertices next to it.
\<close>

fun is_walk :: "'p graph_context \<Rightarrow> graphid list \<Rightarrow> bool" where
  "is_walk g (v # e # w # rest) =
     ((case get_edge_entry g e of
         None \<Rightarrow> False
       | Some ee \<Rightarrow> (start_vertex_id ee = v \<and> end_vertex_id ee = w)
                   \<or> (start_vertex_id ee = w \<and> end_vertex_id ee = v))
      \<and> is_walk g (w # rest))"
| "is_walk g [v] = True"
| "is_walk g arr = False"

section \<open>A small graph to run the engine on\<close>

text \<open>
  Three vertices and four edges: \<open>10: 1 \<rightarrow> 2\<close>, \<open>11: 2 \<rightarrow> 3\<close>, \<open>12: 1 \<rightarrow> 3\<close> and the
  self-loop \<open>13: 2 \<rightarrow> 2\<close>. Edge properties are not used (\<open>unit\<close>).
\<close>

definition example_graph :: "unit graph_context" where
  "example_graph =
     \<lparr>vertex_table =
        [(1, \<lparr>vertex_entry_id = 1, edges_in = [], edges_out = [10, 12], edges_self = []\<rparr>),
         (2, \<lparr>vertex_entry_id = 2, edges_in = [10], edges_out = [11], edges_self = [13]\<rparr>),
         (3, \<lparr>vertex_entry_id = 3, edges_in = [11, 12], edges_out = [], edges_self = []\<rparr>)],
      edge_table =
        [(10, \<lparr>start_vertex_id = 1, end_vertex_id = 2, edge_label_name = ''e'',
               edge_properties = ()\<rparr>),
         (11, \<lparr>start_vertex_id = 2, end_vertex_id = 3, edge_label_name = ''e'',
               edge_properties = ()\<rparr>),
         (12, \<lparr>start_vertex_id = 1, end_vertex_id = 3, edge_label_name = ''e'',
               edge_properties = ()\<rparr>),
         (13, \<lparr>start_vertex_id = 2, end_vertex_id = 2, edge_label_name = ''e'',
               edge_properties = ()\<rparr>)]\<rparr>"

definition example_args :: "cypher_rel_dir \<Rightarrow> gtype_arg \<Rightarrow> gtype_arg \<Rightarrow> unit vle_args" where
  "example_args dir lo hi =
     \<lparr>arg_graph = example_graph,
      arg_start = \<lparr>vertex_id = 1\<rparr>, arg_end = \<lparr>vertex_id = 3\<rparr>,
      arg_lidx = lo, arg_uidx = hi, arg_direction = dir,
      arg_label = None, arg_properties = None\<rparr>"

definition no_constraint :: "unit \<Rightarrow> unit \<Rightarrow> bool" where
  "no_constraint props constraint = True"

section \<open>The clause transformer (\<open>cypher_clause.c\<close>)\<close>

text \<open>
  A path of a pattern is the list of its nodes and relationships in order, with an
  optional path variable. \<open>PathOther\<close> stands for a list element that is neither a
  \<open>cypher_node\<close> nor a \<open>cypher_relationship\<close>.
\<close>

datatype path_elem = PathNode cypher_node | PathRel cypher_relationship | PathOther

record cypher_path =
  path_elems :: "path_elem list"
  var_name :: "string option"

datatype transform_error =
    LabelIsForVertices string
  | VariableAlreadyExists string
  | OnlyDirectedRelationships
  | RelationshipNeedsLabel
  | UnrecognizedNode
  | PathNeedsVertex
  | LimitContainsVariables string
  | HostError string

subsection \<open>\<open>MATCH\<close>: the edge uniqueness predicate\<close>

datatype transform_entity_type = ENT_VERTEX | ENT_EDGE | ENT_VLE_EDGE

datatype entity_ref = EntityNode cypher_node | EntityRel cypher_relationship

record transform_entity =
  ent_type :: transform_entity_type
  ent_entity :: entity_ref
  ent_expr :: "node option"

definition make_transform_entity ::
  "transform_entity_type \<Rightarrow> entity_ref \<Rightarrow> node option \<Rightarrow> transform_entity" where
  "make_transform_entity type ref expr = \<lparr>ent_type = type, ent_entity = ref, ent_expr = expr\<rparr>"

text \<open>
  What the \<open>MATCH\<close> transformation takes from the parse state and the host parser:
  the node or relationship as \<open>handle_vertex\<close>, \<open>handle_edge\<close> and
  \<open>transform_VLE_edge_entity\<close> leave it (a name may have been generated) with the
  expression built for it; the join quals of a list of entities; the accessor node
  \<open>make_qual\<close> builds; the \<open>edges\<close> column of a VLE entity; and \<open>CATALOG_SCHEMA\<close>.
\<close>

record match_env =
  vertex_parts :: "cypher_node \<Rightarrow> cypher_node \<times> node option"
  edge_parts :: "cypher_relationship \<Rightarrow> cypher_relationship \<times> node option"
  vle_parts :: "cypher_relationship \<Rightarrow> cypher_relationship \<times> node option"
  make_path_join_quals :: "transform_entity list \<Rightarrow> node list"
  make_qual :: "transform_entity \<Rightarrow> string \<Rightarrow> node"
  edges_column :: "transform_entity \<Rightarrow> node"
  match_catalog_schema :: string

definition handle_vertex :: "match_env \<Rightarrow> cypher_node \<Rightarrow> transform_entity" where
  "handle_vertex env n =
     (case vertex_parts env n of
        (n', expr) \<Rightarrow> make_transform_entity ENT_VERTEX (EntityNode n') expr)"

definition handle_edge :: "match_env \<Rightarrow> cypher_relationship \<Rightarrow> transform_entity" where
  "handle_edge env rel =
     (case edge_parts env rel of
        (rel', expr) \<Rightarrow> make_transform_entity ENT_EDGE (EntityRel rel') expr)"

definition transform_VLE_edge_entity :: "match_env \<Rightarrow> cypher_relationship \<Rightarrow> transform_entity" where
  "transform_VLE_edge_entity env rel =
     (case vle_parts env rel of
        (rel', var) \<Rightarrow> make_transform_entity ENT_VLE_EDGE (EntityRel rel') var)"

text \<open>
  \<open>transform_match_entities\<close>: the loop over the positions of the path. At an even
  position the element is read as a node; at an odd position as a relationship. For a
  variable-length relationship the node after it is transformed first, the VLE entity is
  put before it (\<open>insert_vle_entity\<close>) and the loop skips that node. An element of the
  wrong kind, which the grammar never produces, ends the list here.
\<close>

fun transform_match_entities_even :: "match_env \<Rightarrow> path_elem list \<Rightarrow> transform_entity list"
  and transform_match_entities_odd :: "match_env \<Rightarrow> path_elem list \<Rightarrow> transform_entity list"
  where
  "transform_match_entities_even env (PathNode n # rest) =
     handle_vertex env n # transform_match_entities_odd env rest"
| "transform_match_entities_even env elems = []"
| "transform_match_entities_odd env (PathRel rel # rest) =
     (if rel_varlen rel = None
      then handle_edge env rel # transform_match_entities_even env rest
      else (case rest of
              PathNode n # rest' \<Rightarrow>
                transform_VLE_edge_entity env rel # handle_vertex env n
                  # transform_match_entities_odd env rest'
            | _ \<Rightarrow> []))"
| "transform_match_entities_odd env elems = []"

definition transform_match_entities :: "match_env \<Rightarrow> cypher_path \<Rightarrow> transform_entity list" where
  "transform_match_entities env path = transform_match_entities_even env (path_elems path)"

text \<open>
  \<open>prevent_duplicate_edges\<close>: one argument per edge entity and per VLE edge entity of
  the list it is given, in order; vertices contribute nothing.
\<close>

fun duplicate_edge_arg :: "match_env \<Rightarrow> transform_entity \<Rightarrow> node list" where
  "duplicate_edge_arg env entity =
     (if ent_type entity = ENT_EDGE then [make_qual env entity ''id'']
      else if ent_type entity = ENT_VLE_EDGE then [edges_column env entity]
      else [])"

definition prevent_duplicate_edges :: "match_env \<Rightarrow> transform_entity list \<Rightarrow> node" where
  "prevent_duplicate_edges env entities =
     FuncCall [match_catalog_schema env, ''_ag_enforce_edge_uniqueness'']
       (concat (map (duplicate_edge_arg env) entities))"

text \<open>
  \<open>transform_match_path\<close>, the quals it returns, and the loop of
  \<open>transform_match_pattern\<close> that concatenates them over the paths of the pattern.
\<close>

definition transform_match_path :: "match_env \<Rightarrow> cypher_path \<Rightarrow> node list" where
  "transform_match_path env path =
     (let entities = transform_match_entities env path;
          qual = make_path_join_quals env entities
      in if length entities > 3
         then qual @ [prevent_duplicate_edges env entities]
         else qual)"

definition transform_match_pattern_quals :: "match_env \<Rightarrow> cypher_path list \<Rightarrow> node list" where
  "transform_match_pattern_quals env pattern = concat (map (transform_match_path env) pattern)"

text \<open>
  Notions to state the claim with: a path the grammar builds (a node, then relationship
  and node in turn), its relationships, the argument the predicate gets for a
  relationship, and the uniqueness predicates among a list of quals.
\<close>

fun wf_path :: "path_elem list \<Rightarrow> bool" where
  "wf_path [PathNode n] = True"
| "wf_path (PathNode n # PathRel rel # rest) = wf_path rest"
| "wf_path elems = False"

fun path_rels :: "path_elem list \<Rightarrow> cypher_relationship list" where
  "path_rels [] = []"
| "path_rels (PathRel rel # rest) = rel # path_rels rest"
| "path_rels (x # rest) = path_rels rest"

definition rel_entity :: "match_env \<Rightarrow> cypher_relationship \<Rightarrow> transform_entity" where
  "rel_entity env rel =
     (if rel_varlen rel = None then handle_edge env rel else transform_VLE_edge_entity env rel)"

definition rel_arg :: "match_env \<Rightarrow> cypher_relationship \<Rightarrow> node" where
  "rel_arg env rel =
     (if rel_varlen rel = None then make_qual env (handle_edge env rel) ''id''
      else edges_column env (transform_VLE_edge_entity env rel))"

fun is_uniqueness_call :: "node \<Rightarrow> bool" where
  "is_uniqueness_call (FuncCall name args) =
     (length name = 2 \<and> name ! 1 = ''_ag_enforce_edge_uniqueness'')"
| "is_uniqueness_call n = False"

subsection \<open>\<open>CREATE\<close>: relationships\<close>

datatype label_kind = LABEL_KIND_VERTEX | LABEL_KIND_EDGE

text \<open>
  The target node built for an entity of a \<open>CREATE\<close> path, reduced to the fields set
  from the pattern; the fields filled from the catalog and the target list are left out.
\<close>

record cypher_target_node =
  tn_type :: label_kind
  tn_label_name :: "string option"
  tn_variable_name :: "string option"
  tn_is_var :: bool
  tn_dir :: cypher_rel_dir
  tn_in_path_var :: bool

text \<open>
  What the \<open>CREATE\<close> transformation takes from outside: the label cache
  (\<open>search_label_name_graph_cache\<close>), whether the previous clause has a column of a
  given name (\<open>variable_exists\<close>), and the transformation of a node
  (\<open>transform_create_cypher_node\<close>).
\<close>

record create_env =
  label_cache :: "string \<Rightarrow> label_kind option"
  variable_exists :: "string \<Rightarrow> bool"
  transform_create_cypher_node :: "cypher_node \<Rightarrow> transform_error + cypher_target_node"

definition transform_create_cypher_edge ::
  "create_env \<Rightarrow> cypher_relationship \<Rightarrow> transform_error + cypher_target_node" where
  "transform_create_cypher_edge env edge =
     (if (case rel_label edge of
            None \<Rightarrow> False
          | Some l \<Rightarrow> (case label_cache env l of None \<Rightarrow> False | Some k \<Rightarrow> k \<noteq> LABEL_KIND_EDGE))
      then Inl (LabelIsForVertices (the (rel_label edge)))
      else if (case rel_name edge of None \<Rightarrow> False | Some name \<Rightarrow> variable_exists env name)
      then Inl (VariableAlreadyExists (the (rel_name edge)))
      else if rel_dir edge = CYPHER_REL_DIR_NONE then Inl OnlyDirectedRelationships
      else if rel_label edge = None then Inl RelationshipNeedsLabel
      else Inr \<lparr>tn_type = LABEL_KIND_EDGE, tn_label_name = rel_label edge,
                tn_variable_name = rel_name edge, tn_is_var = (rel_name edge \<noteq> None),
                tn_dir = rel_dir edge, tn_in_path_var = False\<rparr>)"

fun transform_create_path_loop ::
  "create_env \<Rightarrow> bool \<Rightarrow> path_elem list \<Rightarrow> transform_error + cypher_target_node list" where
  "transform_create_path_loop env in_path [] = Inr []"
| "transform_create_path_loop env in_path (PathNode n # rest) =
     (case transform_create_cypher_node env n of
        Inl err \<Rightarrow> Inl err
      | Inr rel \<Rightarrow>
          (case transform_create_path_loop env in_path rest of
             Inl err \<Rightarrow> Inl err
           | Inr tns \<Rightarrow> Inr (rel\<lparr>tn_in_path_var := in_path \<or> tn_in_path_var rel\<rparr> # tns)))"
| "transform_create_path_loop env in_path (PathRel edge # rest) =
     (case transform_create_cypher_edge env edge of
        Inl err \<Rightarrow> Inl err
      | Inr rel \<Rightarrow>
          (case transform_create_path_loop env in_path rest of
             Inl err \<Rightarrow> Inl err
           | Inr tns \<Rightarrow> Inr (rel\<lparr>tn_in_path_var := in_path \<or> tn_in_path_var rel\<rparr> # tns)))"
| "transform_create_path_loop env in_path (PathOther # rest) = Inl UnrecognizedNode"

definition transform_cypher_create_path ::
  "create_env \<Rightarrow> cypher_path \<Rightarrow> transform_error + cypher_target_node list" where
  "transform_cypher_create_path env path =
     (case transform_create_path_loop env (var_name path \<noteq> None) (path_elems path) of
        Inl err \<Rightarrow> Inl err
      | Inr transformed_path \<Rightarrow>
          if var_name path \<noteq> None \<and> length transformed_path < 1 then Inl PathNeedsVertex
          else Inr transformed_path)"

fun transform_cypher_create_pattern ::
  "create_env \<Rightarrow> cypher_path list \<Rightarrow> transform_error + cypher_target_node list list" where
  "transform_cypher_create_pattern env [] = Inr []"
| "transform_cypher_create_pattern env (path # rest) =
     (case transform_cypher_create_path env path of
        Inl err \<Rightarrow> Inl err
      | Inr transformed_path \<Rightarrow>
          (case transform_cypher_create_pattern env rest of
             Inl err \<Rightarrow> Inl err
           | Inr transformed_pattern \<Rightarrow> Inr (transformed_path # transformed_pattern)))"

text \<open>A pattern has an undirected relationship.\<close>

definition has_undirected :: "cypher_path list \<Rightarrow> bool" where
  "has_undirected pattern =
     list_ex (\<lambda>path. list_ex (\<lambda>rel. rel_dir rel = CYPHER_REL_DIR_NONE) (path_rels (path_elems path)))
       pattern"

subsection \<open>\<open>SKIP\<close> and \<open>LIMIT\<close>\<close>

text \<open>
  \<open>transform_cypher_limit\<close> calls three functions of the expression transformer and
  of the host parser; they are parameters. \<open>'e\<close> is the type of transformed
  expressions.
\<close>

record 'e limit_env =
  transform_cypher_expr :: "node \<Rightarrow> transform_error + 'e"
  coerce_to_specific_type :: "'e \<Rightarrow> string \<Rightarrow> transform_error + 'e"
  contain_vars_of_level :: "'e \<Rightarrow> nat \<Rightarrow> bool"

definition transform_cypher_limit ::
  "'e limit_env \<Rightarrow> node option \<Rightarrow> string \<Rightarrow> transform_error + 'e option" where
  "transform_cypher_limit env n construct_name =
     (case n of
        None \<Rightarrow> Inr None
      | Some expr \<Rightarrow>
          (case transform_cypher_expr env expr of
             Inl err \<Rightarrow> Inl err
           | Inr qual \<Rightarrow>
               (case coerce_to_specific_type env qual construct_name of
                  Inl err \<Rightarrow> Inl err
                | Inr qual' \<Rightarrow>
                    if contain_vars_of_level env qual' 0
                    then Inl (LimitContainsVariables construct_name)
                    else Inr (Some qual'))))"

text \<open>The \<open>RETURN\<close> node, and the two lines of \<open>transform_cypher_return\<close> for
  \<open>SKIP\<close> and \<open>LIMIT\<close>.\<close>

record cypher_return =
  return_distinct :: bool
  return_items :: "node list"
  return_order_by :: "node list"
  return_skip :: "node option"
  return_limit :: "node option"

definition return_skip_and_limit ::
  "'e limit_env \<Rightarrow> cypher_return \<Rightarrow> transform_error + 'e option \<times> 'e option" where
  "return_skip_and_limit env self =
     (case transform_cypher_limit env (return_skip self) ''SKIP'' of
        Inl err \<Rightarrow> Inl err
      | Inr limitOffset \<Rightarrow>
          (case transform_cypher_limit env (return_limit self) ''LIMIT'' of
             Inl err \<Rightarrow> Inl err
           | Inr limitCount \<Rightarrow> Inr (limitOffset, limitCount)))"

text \<open>
  A small expression type to run \<open>transform_cypher_limit\<close> on: constants, parameters,
  variables with their \<open>varlevelsup\<close>, and function calls.
\<close>

datatype expr = Const int | Param string | Var nat | FuncExpr string "expr list"

fun expr_contains_var :: "expr \<Rightarrow> nat \<Rightarrow> bool" where
  "expr_contains_var (Var l) level = (l = level)"
| "expr_contains_var (FuncExpr f args) level = list_ex (\<lambda>a. expr_contains_var a level) args"
| "expr_contains_var e level = False"

fun example_transform_expr :: "node \<Rightarrow> transform_error + expr" where
  "example_transform_expr (A_Const (Integer i)) = Inr (Const i)"
| "example_transform_expr (ColumnRef names) = Inr (Var 0)"
| "example_transform_expr n = Inl (HostError ''unsupported'')"

definition example_limit_env :: "expr limit_env" where
  "example_limit_env =
     \<lparr>transform_cypher_expr = example_transform_expr,
      coerce_to_specific_type = (\<lambda>e c. Inr (FuncExpr ''int8'' [e])),
      contain_vars_of_level = expr_contains_var\<rparr>"

subsection \<open>\<open>WITH\<close> and its \<open>WHERE\<close>\<close>

record cypher_with =
  with_distinct :: bool
  with_items :: "node list"
  with_order_by :: "node list"
  with_skip :: "node option"
  with_limit :: "node option"
  with_where :: "node option"

record cypher_match =
  match_pattern :: "cypher_path list"
  match_where :: "node option"
  match_optional :: bool

datatype clause_node =
    CypherReturn cypher_return
  | CypherWith cypher_with
  | CypherMatch cypher_match
  | OtherClause

datatype cypher_clause = Clause clause_node "cypher_clause option"

text \<open>
  The query tree, reduced to the target list, the subqueries of the range table and the
  quals of the join tree (the \<open>WHERE\<close> of the query).
\<close>

datatype query = Query "node list" "query list" "node option"

text \<open>
  What \<open>transform_cypher_clause_with_where\<close> takes from outside, besides the
  \<open>transform\<close> method it is called with: \<open>expandNSItemAttrs\<close> on the subquery, and the
  value of \<open>((cypher_match *)clause->self)->where\<close> when \<open>self\<close> is not a
  \<open>cypher_match\<close> (it is read through the cast; what it yields depends on the layout of
  the node that is there).
\<close>

record where_env =
  expandNSItemAttrs :: "query \<Rightarrow> node list"
  where_through_cast :: "clause_node \<Rightarrow> node option"

fun self_where :: "where_env \<Rightarrow> clause_node \<Rightarrow> node option" where
  "self_where env (CypherMatch m) = match_where m"
| "self_where env n = where_through_cast env n"

fun transform_cypher_clause_with_where ::
  "where_env \<Rightarrow> (cypher_clause \<Rightarrow> transform_error + query) \<Rightarrow> cypher_clause
     \<Rightarrow> transform_error + query" where
  "transform_cypher_clause_with_where env transform (Clause self prev) =
     (if self_where env self \<noteq> None then
        (case transform (Clause self prev) of
           Inl err \<Rightarrow> Inl err
         | Inr subquery \<Rightarrow> Inr (Query (expandNSItemAttrs env subquery) [subquery] None))
      else transform (Clause self prev))"

fun transform_cypher_with ::
  "where_env \<Rightarrow> (cypher_clause \<Rightarrow> transform_error + query) \<Rightarrow> cypher_clause
     \<Rightarrow> transform_error + query" where
  "transform_cypher_with env transform_cypher_return (Clause (CypherWith self) prev) =
     (let return_clause = \<lparr>return_distinct = with_distinct self,
                            return_items = with_items self,
                            return_order_by = with_order_by self,
                            return_skip = with_skip self,
                            return_limit = with_limit self\<rparr>;
          wrapper = Clause (CypherReturn return_clause) prev
      in transform_cypher_clause_with_where env transform_cypher_return wrapper)"
| "transform_cypher_with env transform_cypher_return clause = Inl UnrecognizedNode"

subsection \<open>Concrete environments to run the transformer on\<close>

definition entity_name :: "transform_entity \<Rightarrow> string" where
  "entity_name entity =
     (case ent_entity entity of
        EntityNode n \<Rightarrow> (case node_name n of None \<Rightarrow> ''_'' | Some name \<Rightarrow> name)
      | EntityRel rel \<Rightarrow> (case rel_name rel of None \<Rightarrow> ''_'' | Some name \<Rightarrow> name))"

definition example_match_env :: match_env where
  "example_match_env =
     \<lparr>vertex_parts = (\<lambda>n. (n, None)),
      edge_parts = (\<lambda>rel. (rel, None)),
      vle_parts = (\<lambda>rel. (rel, None)),
      make_path_join_quals = (\<lambda>entities. []),
      make_qual = (\<lambda>entity col. ColumnRef [entity_name entity, col]),
      edges_column = (\<lambda>entity. ColumnRef [entity_name entity, ''edges'']),
      match_catalog_schema = ''postgraph''\<rparr>"

definition anonymous_node :: cypher_node where
  "anonymous_node = \<lparr>node_name = None, node_label = None, node_props = None\<rparr>"

definition named_rel :: "string \<Rightarrow> cypher_rel_dir \<Rightarrow> cypher_relationship" where
  "named_rel name dir =
     \<lparr>rel_name = Some name, rel_label = None, rel_varlen = None, rel_props = None,
      rel_dir = dir\<rparr>"

definition one_edge_path :: "string \<Rightarrow> cypher_path" where
  "one_edge_path name =
     \<lparr>path_elems = [PathNode anonymous_node, PathRel (named_rel name CYPHER_REL_DIR_RIGHT),
                     PathNode anonymous_node],
      var_name = None\<rparr>"

definition two_edge_path :: "string \<Rightarrow> string \<Rightarrow> cypher_path" where
  "two_edge_path name1 name2 =
     \<lparr>path_elems = [PathNode anonymous_node, PathRel (named_rel name1 CYPHER_REL_DIR_RIGHT),
                     PathNode anonymous_node, PathRel (named_rel name2 CYPHER_REL_DIR_RIGHT),
                     PathNode anonymous_node],
      var_name = None\<rparr>"

text \<open>The pattern of \<open>CREATE ()-[:X]-()\<close>, and an environment with an empty label
  cache and no previous clause.\<close>

definition create_undirected_x :: "cypher_path list" where
  "create_undirected_x =
     [\<lparr>path_elems =
         [PathNode anonymous_node,
          PathRel \<lparr>rel_name = None, rel_label = Some ''X'', rel_varlen = None,
                   rel_props = None, rel_dir = CYPHER_REL_DIR_NONE\<rparr>,
          PathNode anonymous_node],
       var_name = None\<rparr>]"

definition example_create_env :: create_env where
  "example_create_env =
     \<lparr>label_cache = (\<lambda>l. None),
      variable_exists = (\<lambda>name. False),
      transform_create_cypher_node =
        (\<lambda>n. Inr \<lparr>tn_type = LABEL_KIND_VERTEX, tn_label_name = node_label n,
                   tn_variable_name = node_name n, tn_is_var = (node_name n \<noteq> None),
                   tn_dir = CYPHER_REL_DIR_NONE, tn_in_path_var = False\<rparr>)\<rparr>"

text \<open>A \<open>transform_cypher_return\<close> that puts the items into the target list.\<close>

fun example_transform_return :: "cypher_clause \<Rightarrow> transform_error + query" where
  "example_transform_return (Clause (CypherReturn r) prev) = Inr (Query (return_items r) [] None)"
| "example_transform_return clause = Inl UnrecognizedNode"

definition example_where_env :: where_env where
  "example_where_env =
     \<lparr>expandNSItemAttrs = (\<lambda>q. case q of Query targets subs quals \<Rightarrow> targets),
      where_through_cast = (\<lambda>n. None)\<rparr>"

definition example_with :: "node option \<Rightarrow> cypher_clause" where
  "example_with w =
     Clause (CypherWith \<lparr>with_distinct = False, with_items = [ColumnRef [''n'']],
                         with_order_by = [], with_skip = None, with_limit = None,
                         with_where = w\<rparr>) None"

section \<open>Properties of \<open>_ag_enforce_edge_uniqueness\<close> and of the endpoint predicates\<close>

lemma ve_loop_char:
  "ve_loop i ve seen =
     (if distinct (ve_ids_from i ve) \<and> set (ve_ids_from i ve) \<inter> set seen = {}
      then Some (rev (ve_ids_from i ve) @ seen) else None)"
  by (induction i ve seen rule: ve_loop.induct) auto

lemma ve_edge_ids_Cons: "ve_edge_ids (x # xs) = entry_id x # ve_edge_ids (tl xs)"
  by (cases xs) simp_all

lemma ve_ids_from_parity:
  "ve_ids_from i ve = (if even i then ve_edge_ids ve else ve_edge_ids (tl ve))"
proof (induction ve arbitrary: i)
  case Nil
  then show ?case by simp
next
  case (Cons x xs)
  show ?case
  proof (cases "even i")
    case True
    then have "i mod 2 = 0" by presburger
    with True show ?thesis by (simp add: Cons.IH ve_edge_ids_Cons)
  next
    case False
    then have "i mod 2 = 1" by presburger
    with False show ?thesis by (simp add: Cons.IH)
  qed
qed

lemma ve_ids_from_even: "ve_ids_from 0 ve = ve_edge_ids ve"
  by (simp add: ve_ids_from_parity)

lemma ve_edge_ids_alternating:
  "alternating ve \<Longrightarrow> ve_edge_ids ve = map edge_id (edges_of ve)"
  by (induction ve rule: alternating.induct) simp_all

lemma enforce_loop_char:
  "distinct seen \<Longrightarrow> enforce_loop i args seen =
     (if \<not> (distinct (collected_ids (before_null args)) \<and> set (collected_ids (before_null args)) \<inter> set seen = {})
      then Inr False
      else if before_null args = args then Inr True
      else Inl (NullArgument (i + length (before_null args))))"
proof (induction i args seen rule: enforce_loop.induct)
  case (4 i ve as seen)
  then show ?case
    by (auto simp: collected_ids_def before_null_def ve_loop_char ve_ids_from_even split: option.splits)
qed (auto simp: collected_ids_def before_null_def)


text \<open>
  Claim C4, as the code has it. The arguments are scanned from left to right. The function
  returns false as soon as an id is entered a second time, where a graphid argument
  contributes itself and a VariableEdge argument the id of every edge of its path; it
  raises the NULL error at the first NULL argument, provided no id was repeated before
  it; and it returns true when it reaches the end. So with no NULL argument the result is
  false if and only if some collected id occurs more than once.
\<close>

theorem enforce_edge_uniqueness_result:
  "ag_enforce_edge_uniqueness args =
     (if \<not> distinct (collected_ids (before_null args)) then Inr False
      else if before_null args = args then Inr True
      else Inl (NullArgument (length (before_null args))))"
  unfolding ag_enforce_edge_uniqueness_def by (simp add: enforce_loop_char)

theorem enforce_edge_uniqueness_result_witness:
  "ag_enforce_edge_uniqueness
     [GraphidArg 5,
      VariableEdgeArg [EdgeEntry \<lparr>edge_id = 7, edge_start_id = 1, edge_end_id = 2\<rparr>,
                       VertexEntry \<lparr>vertex_id = 2\<rparr>,
                       EdgeEntry \<lparr>edge_id = 5, edge_start_id = 2, edge_end_id = 3\<rparr>]] = Inr False
   \<and> ag_enforce_edge_uniqueness [GraphidArg 5, OtherArg, GraphidArg 6] = Inr True
   \<and> ag_enforce_edge_uniqueness [GraphidArg 5, NullArg, GraphidArg 5] = Inl (NullArgument 1)"
  using enforce_edge_uniqueness_result
          [of "[GraphidArg 5,
                VariableEdgeArg [EdgeEntry \<lparr>edge_id = 7, edge_start_id = 1, edge_end_id = 2\<rparr>,
                                 VertexEntry \<lparr>vertex_id = 2\<rparr>,
                                 EdgeEntry \<lparr>edge_id = 5, edge_start_id = 2, edge_end_id = 3\<rparr>]]"]
        enforce_edge_uniqueness_result [of "[GraphidArg 5, OtherArg, GraphidArg 6]"]
        enforce_edge_uniqueness_result [of "[GraphidArg 5, NullArg, GraphidArg 5]"]
  by (simp add: before_null_def collected_ids_def)

text \<open>
  Claim C4 as stated says that an error is raised whenever any argument is NULL. A NULL
  argument behind a repeated id is never looked at: the call returns false.
\<close>

theorem enforce_edge_uniqueness_null_counterexample:
  "NullArg \<in> set [GraphidArg 1, GraphidArg 1, NullArg]
   \<and> ag_enforce_edge_uniqueness [GraphidArg 1, GraphidArg 1, NullArg] = Inr False"
  by (simp add: ag_enforce_edge_uniqueness_def)

lemma skip_entries_append: "skip_entries (length pre) (pre @ ys) = ys"
  by (induction pre) simp_all

lemma last_edge_snoc: "last_edge (pre @ [EdgeEntry e]) = Some e"
  using skip_entries_append [of pre "[EdgeEntry e]"] by (simp add: last_edge_def first_edge_def)

text \<open>
  The two entries of an \<open>int64\<close> put together again give the \<open>int64\<close>: the wide read
  at \<open>children[0]\<close>, \<open>children[2]\<close> and \<open>children[4]\<close> of an edge finds its id, its
  start id and its end id.
\<close>

lemma int64_at_entries:
  assumes "- (2 ^ 63) \<le> x" and "x < 2 ^ 63"
  shows "int64_at (int64_entries x @ rest) 0 = x"
proof -
  have split: "x mod 2 ^ 32 + 2 ^ 32 * (x div 2 ^ 32 mod 2 ^ 32) = x mod 2 ^ 64"
    using zmod_zmult2_eq [of "2 ^ 32" x "2 ^ 32"] by simp
  show ?thesis
  proof (cases "0 \<le> x")
    case True
    then have "x mod 2 ^ 64 = x" using assms by simp
    then show ?thesis using split assms by (simp add: int64_at_def int64_entries_def Let_def)
  next
    case False
    then have "x mod 2 ^ 64 = x + 2 ^ 64"
      using assms mod_add_self2 [of x "2 ^ 64"] mod_pos_pos_trivial [of "x + 2 ^ 64" "2 ^ 64"]
      by simp
    then show ?thesis using split assms False
      by (simp add: int64_at_def int64_entries_def Let_def)
  qed
qed

lemma edge_children_wide_reads:
  assumes "- (2 ^ 63) \<le> edge_id e" "edge_id e < 2 ^ 63"
    and "- (2 ^ 63) \<le> edge_start_id e" "edge_start_id e < 2 ^ 63"
    and "- (2 ^ 63) \<le> edge_end_id e" "edge_end_id e < 2 ^ 63"
  shows "int64_at (edge_children e) 0 = edge_id e"
    and "int64_at (edge_children e) 2 = edge_start_id e"
    and "int64_at (edge_children e) 4 = edge_end_id e"
  using int64_at_entries [OF assms(1,2), of "int64_entries (edge_start_id e) @ int64_entries (edge_end_id e)"]
        int64_at_entries [OF assms(3,4), of "int64_entries (edge_end_id e)"]
        int64_at_entries [OF assms(5,6), of "[]"]
  by (simp_all add: edge_children_def int64_at_def int64_entries_def Let_def)

text \<open>
  Claim C10. \<open>vertex_is_first_start_vertex\<close>, \<open>gid_is_first_endid\<close> and
  \<open>vertex_is_first_end_vertex\<close> return true for every input, since they return
  before the comparison. \<open>gid_is_first_startid\<close> and the four last-edge predicates
  compare, but not with the edge's start or end id: \<open>(int64)e->children[2]\<close> and
  \<open>(int64)e->children[4]\<close> are one 32-bit entry each, the low half of the id, and a
  vertex is likewise read by the low half of its id. So a graph id above \<open>2 ^ 32\<close> is
  never found equal to the start id it equals (here \<open>844424930131969\<close>, which is
  \<open>3 * 2 ^ 48 + 1\<close>), and a vertex is found to be the end vertex of an edge that ends
  at another vertex with the same low half (\<open>2 ^ 48 + 2\<close> and \<open>3 * 2 ^ 48 + 2\<close>).
\<close>

theorem endpoint_predicates_read_one_entry:
  "vertex_is_first_start_vertex v ve = Some True
   \<and> gid_is_first_endid gid ve = Some True
   \<and> vertex_is_first_end_vertex v ve = Some True
   \<and> gid_is_first_startid gid (EdgeEntry e # rest) = Some (edge_start_id e mod 2 ^ 32 = gid)
   \<and> gid_is_last_startid gid (pre @ [EdgeEntry e]) = Some (edge_start_id e mod 2 ^ 32 = gid)
   \<and> vertex_is_last_start_vertex v (pre @ [EdgeEntry e])
       = Some (edge_start_id e mod 2 ^ 32 = vertex_id v mod 2 ^ 32)
   \<and> gid_is_last_endid gid (pre @ [EdgeEntry e]) = Some (edge_end_id e mod 2 ^ 32 = gid)
   \<and> vertex_is_last_end_vertex v (pre @ [EdgeEntry e])
       = Some (edge_end_id e mod 2 ^ 32 = vertex_id v mod 2 ^ 32)
   \<and> gid_is_first_startid 844424930131969
        [EdgeEntry \<lparr>edge_id = 1125899906842625, edge_start_id = 844424930131969,
                    edge_end_id = 844424930131970\<rparr>] = Some False
   \<and> gid_is_last_endid 844424930131970
        [EdgeEntry \<lparr>edge_id = 1125899906842625, edge_start_id = 844424930131969,
                    edge_end_id = 844424930131970\<rparr>] = Some False
   \<and> vertex_is_last_end_vertex \<lparr>vertex_id = 281474976710658\<rparr>
        [EdgeEntry \<lparr>edge_id = 1125899906842625, edge_start_id = 844424930131969,
                    edge_end_id = 844424930131970\<rparr>] = Some True"
proof -
  have stubs: "vertex_is_first_start_vertex v ve = Some True"
    "gid_is_first_endid gid ve = Some True"
    "vertex_is_first_end_vertex v ve = Some True"
    by (simp_all add: vertex_is_first_start_vertex_def gid_is_first_endid_def
        vertex_is_first_end_vertex_def)
  have entries: "edge_children e ! 2 = edge_start_id e mod 2 ^ 32"
    "edge_children e ! 4 = edge_end_id e mod 2 ^ 32"
    "vertex_children v ! 0 = vertex_id v mod 2 ^ 32"
    by (simp_all add: edge_children_def vertex_children_def int64_entries_def)
  have first: "gid_is_first_startid gid (EdgeEntry e # rest)
                 = Some (edge_start_id e mod 2 ^ 32 = gid)"
    by (simp add: gid_is_first_startid_def first_edge_def entries)
  have last: "gid_is_last_startid gid (pre @ [EdgeEntry e])
                = Some (edge_start_id e mod 2 ^ 32 = gid)"
    "vertex_is_last_start_vertex v (pre @ [EdgeEntry e])
       = Some (edge_start_id e mod 2 ^ 32 = vertex_id v mod 2 ^ 32)"
    "gid_is_last_endid gid (pre @ [EdgeEntry e]) = Some (edge_end_id e mod 2 ^ 32 = gid)"
    "vertex_is_last_end_vertex v (pre @ [EdgeEntry e])
       = Some (edge_end_id e mod 2 ^ 32 = vertex_id v mod 2 ^ 32)"
    by (simp_all add: gid_is_last_startid_def vertex_is_last_start_vertex_def
        gid_is_last_endid_def vertex_is_last_end_vertex_def last_edge_snoc entries)
  have run: "gid_is_first_startid 844424930131969
        [EdgeEntry \<lparr>edge_id = 1125899906842625, edge_start_id = 844424930131969,
                    edge_end_id = 844424930131970\<rparr>] = Some False"
    "gid_is_last_endid 844424930131970
        [EdgeEntry \<lparr>edge_id = 1125899906842625, edge_start_id = 844424930131969,
                    edge_end_id = 844424930131970\<rparr>] = Some False"
    "vertex_is_last_end_vertex \<lparr>vertex_id = 281474976710658\<rparr>
        [EdgeEntry \<lparr>edge_id = 1125899906842625, edge_start_id = 844424930131969,
                    edge_end_id = 844424930131970\<rparr>] = Some True"
    by code_simp+
  from stubs first last run show ?thesis by blast
qed

section \<open>Properties of the expression builders\<close>

lemma is_comparison_chained_operators:
  "opr1 \<in> {''<'', ''>'', ''<='', ''='', ''<>''} \<Longrightarrow>
     is_A_Expr_a_comparison_operation [opr1] = Inr True"
  by (auto simp: is_A_Expr_a_comparison_operation_def)

lemma is_comparison_ge: "is_A_Expr_a_comparison_operation [''>=''] = Inr False"
  by (simp add: is_A_Expr_a_comparison_operation_def)

text \<open>
  For the five operators the test recognises, the chaining is as the specification has it:
  a comparison on the left becomes a two-element conjunction, and a conjunction whose
  last element is a comparison is extended by one conjunct.
\<close>

lemma build_comparison_expression_chains:
  assumes "opr1 \<in> {''<'', ''>'', ''<='', ''='', ''<>''}"
  shows "build_comparison_expression (A_Expr kind [opr1] x y) r opr =
           Inr (BoolExpr AND_EXPR
                  [A_Expr kind [opr1] x y, A_Expr AEXPR_OP [opr] (Some y) r])"
    and "build_comparison_expression (BoolExpr AND_EXPR (args @ [A_Expr kind [opr1] x y])) r opr =
           Inr (BoolExpr AND_EXPR
                  (args @ [A_Expr kind [opr1] x y, A_Expr AEXPR_OP [opr] (Some y) r]))"
  using is_comparison_chained_operators [OF assms]
  by (simp_all add: makeSimpleA_Expr_def makeBoolExpr_def)

text \<open>
  Claim C5 on the code: the grammar builds \<open>X >= Y\<close> with the operator name \<open>>=\<close>,
  which is one of the six comparison operators, but the test compares the name with
  \<open>=>\<close>. With \<open>X >= Y\<close> on the left, or as the last conjunct of an \<open>AND\<close> chain on the
  left, no conjunct \<open>Y op R\<close> is made: the whole left node becomes the left operand of the
  new comparison.
\<close>

theorem build_comparison_expression_ge_not_chained:
  "''>='' \<in> set comparison_operators
   \<and> build_comparison_expression (A_Expr AEXPR_OP [''>=''] (Some x) y) r opr =
       Inr (A_Expr AEXPR_OP [opr] (Some (A_Expr AEXPR_OP [''>=''] (Some x) y)) r)
   \<and> build_comparison_expression
         (BoolExpr AND_EXPR (args @ [A_Expr AEXPR_OP [''>=''] (Some x) y])) r opr =
       Inr (A_Expr AEXPR_OP [opr]
              (Some (BoolExpr AND_EXPR (args @ [A_Expr AEXPR_OP [''>=''] (Some x) y]))) r)"
  by (simp add: comparison_operators_def is_comparison_ge makeSimpleA_Expr_def)

lemma flattened_make_and_expr:
  "flattened l \<Longrightarrow> flattened r \<Longrightarrow>
     flattened (make_and_expr l r) = (\<not> is_boolop AND_EXPR r)"
  by (cases "(l, r)" rule: make_and_expr.cases) (auto simp: makeBoolExpr_def)

lemma flattened_make_or_expr:
  "flattened l \<Longrightarrow> flattened r \<Longrightarrow>
     flattened (make_or_expr l r) = (\<not> is_boolop OR_EXPR r)"
  by (cases "(l, r)" rule: make_or_expr.cases) (auto simp: makeBoolExpr_def)

lemma flattened_make_xor_expr:
  "flattened l \<Longrightarrow> flattened r \<Longrightarrow>
     flattened (make_xor_expr l r) =
       (\<not> is_boolop AND_EXPR l \<and> \<not> is_boolop OR_EXPR l
        \<and> \<not> is_boolop AND_EXPR r \<and> \<not> is_boolop OR_EXPR r)"
  by (auto simp: make_xor_expr_def makeBoolExpr_def)

lemma make_and_expr_new_node:
  "\<not> is_boolop AND_EXPR l \<Longrightarrow> make_and_expr l r = BoolExpr AND_EXPR [l, r]"
  by (cases "(l, r)" rule: make_and_expr.cases) (auto simp: makeBoolExpr_def)

lemma make_or_expr_new_node:
  "\<not> is_boolop OR_EXPR l \<Longrightarrow> make_or_expr l r = BoolExpr OR_EXPR [l, r]"
  by (cases "(l, r)" rule: make_or_expr.cases) (auto simp: makeBoolExpr_def)

text \<open>
  Claim C7, as the code has it: \<open>make_and_expr\<close> and \<open>make_or_expr\<close> flatten on their
  left operand only. When the left operand is a node of the same connective, the node
  returned is that node with the right operand appended to its operand list, the operands
  it had kept in their order; otherwise it is a new node of the two operands.
  \<open>make_xor_expr\<close> returns \<open>(l OR r) AND NOT (l AND r)\<close>, made of new nodes, and
  \<open>make_not_expr\<close> a new \<open>NOT\<close> node. The right operand goes into the result as it
  is: for flattened operands, the node returned by \<open>make_and_expr\<close>
  (\<open>make_or_expr\<close>) is flattened exactly when the right operand is not itself an
  \<open>AND\<close> (\<open>OR\<close>) node, and the result of \<open>make_xor_expr\<close> exactly when neither
  operand is an \<open>AND\<close> or an \<open>OR\<close> node.
\<close>

theorem boolean_flattening_left_operand:
  "make_and_expr (BoolExpr AND_EXPR args) r = BoolExpr AND_EXPR (args @ [r])
   \<and> make_or_expr (BoolExpr OR_EXPR args) r = BoolExpr OR_EXPR (args @ [r])
   \<and> (\<not> is_boolop AND_EXPR l \<longrightarrow> make_and_expr l r = BoolExpr AND_EXPR [l, r])
   \<and> (\<not> is_boolop OR_EXPR l \<longrightarrow> make_or_expr l r = BoolExpr OR_EXPR [l, r])
   \<and> make_xor_expr l r =
       BoolExpr AND_EXPR
         [BoolExpr OR_EXPR [l, r], BoolExpr NOT_EXPR [BoolExpr AND_EXPR [l, r]]]
   \<and> make_not_expr l = BoolExpr NOT_EXPR [l]
   \<and> (flattened l \<and> flattened r \<longrightarrow>
        flattened (make_and_expr l r) = (\<not> is_boolop AND_EXPR r)
        \<and> flattened (make_or_expr l r) = (\<not> is_boolop OR_EXPR r)
        \<and> flattened (make_xor_expr l r) =
            (\<not> is_boolop AND_EXPR l \<and> \<not> is_boolop OR_EXPR l
             \<and> \<not> is_boolop AND_EXPR r \<and> \<not> is_boolop OR_EXPR r)
        \<and> flattened (make_not_expr l))"
proof -
  have append: "make_and_expr (BoolExpr AND_EXPR args) r = BoolExpr AND_EXPR (args @ [r])"
    "make_or_expr (BoolExpr OR_EXPR args) r = BoolExpr OR_EXPR (args @ [r])"
    by simp_all
  have new_node: "\<not> is_boolop AND_EXPR l \<longrightarrow> make_and_expr l r = BoolExpr AND_EXPR [l, r]"
    "\<not> is_boolop OR_EXPR l \<longrightarrow> make_or_expr l r = BoolExpr OR_EXPR [l, r]"
    by (simp_all add: make_and_expr_new_node make_or_expr_new_node)
  have xor_not: "make_xor_expr l r =
       BoolExpr AND_EXPR
         [BoolExpr OR_EXPR [l, r], BoolExpr NOT_EXPR [BoolExpr AND_EXPR [l, r]]]"
    "make_not_expr l = BoolExpr NOT_EXPR [l]"
    by (simp_all add: make_xor_expr_def make_not_expr_def makeBoolExpr_def)
  have flat: "flattened l \<and> flattened r \<longrightarrow>
        flattened (make_and_expr l r) = (\<not> is_boolop AND_EXPR r)
        \<and> flattened (make_or_expr l r) = (\<not> is_boolop OR_EXPR r)
        \<and> flattened (make_xor_expr l r) =
            (\<not> is_boolop AND_EXPR l \<and> \<not> is_boolop OR_EXPR l
             \<and> \<not> is_boolop AND_EXPR r \<and> \<not> is_boolop OR_EXPR r)
        \<and> flattened (make_not_expr l)"
    by (simp add: flattened_make_and_expr flattened_make_or_expr flattened_make_xor_expr
        make_not_expr_def makeBoolExpr_def)
  from append new_node xor_not flat show ?thesis by blast
qed

theorem boolean_flattening_left_operand_witness:
  "make_and_expr (BoolExpr AND_EXPR [ColumnRef [''a''], ColumnRef [''b'']]) (ColumnRef [''c''])
     = BoolExpr AND_EXPR [ColumnRef [''a''], ColumnRef [''b''], ColumnRef [''c'']]
   \<and> make_or_expr (BoolExpr OR_EXPR [ColumnRef [''a''], ColumnRef [''b'']]) (ColumnRef [''c''])
     = BoolExpr OR_EXPR [ColumnRef [''a''], ColumnRef [''b''], ColumnRef [''c'']]
   \<and> \<not> is_boolop OR_EXPR (BoolExpr AND_EXPR [ColumnRef [''a''], ColumnRef [''b'']])
   \<and> make_or_expr (BoolExpr AND_EXPR [ColumnRef [''a''], ColumnRef [''b'']]) (ColumnRef [''c''])
     = BoolExpr OR_EXPR [BoolExpr AND_EXPR [ColumnRef [''a''], ColumnRef [''b'']],
                         ColumnRef [''c'']]
   \<and> \<not> is_boolop AND_EXPR (ColumnRef [''a''])
   \<and> make_and_expr (ColumnRef [''a'']) (BoolExpr AND_EXPR [ColumnRef [''b''], ColumnRef [''c'']])
     = BoolExpr AND_EXPR [ColumnRef [''a''],
                          BoolExpr AND_EXPR [ColumnRef [''b''], ColumnRef [''c'']]]
   \<and> flattened (BoolExpr AND_EXPR [ColumnRef [''a''], ColumnRef [''b'']])
   \<and> flattened (ColumnRef [''c''])
   \<and> flattened (make_and_expr (BoolExpr AND_EXPR [ColumnRef [''a''], ColumnRef [''b'']])
                  (ColumnRef [''c'']))
   \<and> flattened (make_or_expr (BoolExpr AND_EXPR [ColumnRef [''a''], ColumnRef [''b'']])
                  (ColumnRef [''c'']))
   \<and> \<not> flattened (make_xor_expr (BoolExpr AND_EXPR [ColumnRef [''a''], ColumnRef [''b'']])
                  (ColumnRef [''c'']))
   \<and> flattened (ColumnRef [''a''])
   \<and> flattened (BoolExpr AND_EXPR [ColumnRef [''b''], ColumnRef [''c'']])
   \<and> \<not> flattened (make_and_expr (ColumnRef [''a''])
                      (BoolExpr AND_EXPR [ColumnRef [''b''], ColumnRef [''c'']]))"
proof -
  have l: "flattened (BoolExpr AND_EXPR [ColumnRef [''a''], ColumnRef [''b'']])" by simp
  have r: "flattened (ColumnRef [''c''])" by simp
  have l': "flattened (ColumnRef [''a''])" by simp
  have r': "flattened (BoolExpr AND_EXPR [ColumnRef [''b''], ColumnRef [''c'']])" by simp
  have n: "\<not> is_boolop OR_EXPR (BoolExpr AND_EXPR [ColumnRef [''a''], ColumnRef [''b'']])"
    "\<not> is_boolop AND_EXPR (ColumnRef [''a''])"
    "\<not> is_boolop AND_EXPR (ColumnRef [''c''])" "\<not> is_boolop OR_EXPR (ColumnRef [''c''])"
    "is_boolop AND_EXPR (BoolExpr AND_EXPR [ColumnRef [''a''], ColumnRef [''b'']])"
    "is_boolop AND_EXPR (BoolExpr AND_EXPR [ColumnRef [''b''], ColumnRef [''c'']])"
    by simp_all
  note first = boolean_flattening_left_operand
                 [of "[ColumnRef [''a''], ColumnRef [''b'']]" "ColumnRef [''c'']"
                     "BoolExpr AND_EXPR [ColumnRef [''a''], ColumnRef [''b'']]",
                  simplified append.simps]
  note second = boolean_flattening_left_operand
                 [of "[ColumnRef [''a''], ColumnRef [''b'']]"
                     "BoolExpr AND_EXPR [ColumnRef [''b''], ColumnRef [''c'']]"
                     "ColumnRef [''a'']", simplified append.simps]
  from first second l r l' r' n show ?thesis by blast
qed

text \<open>
  Claim C7 as stated fails on trees the parser produces: \<open>XOR\<close> binds tighter than
  \<open>AND\<close>, so \<open>a AND b XOR c\<close> is \<open>make_and_expr a (make_xor_expr b c)\<close>, an \<open>AND\<close> node
  whose second argument is the \<open>AND\<close> node of the \<open>XOR\<close> expansion.
\<close>

theorem boolean_flattening_counterexample:
  "make_and_expr (ColumnRef [''a'']) (make_xor_expr (ColumnRef [''b'']) (ColumnRef [''c'']))
     = BoolExpr AND_EXPR
         [ColumnRef [''a''],
          BoolExpr AND_EXPR
            [BoolExpr OR_EXPR [ColumnRef [''b''], ColumnRef [''c'']],
             BoolExpr NOT_EXPR [BoolExpr AND_EXPR [ColumnRef [''b''], ColumnRef [''c'']]]]]
   \<and> \<not> flattened (make_and_expr (ColumnRef [''a''])
                      (make_xor_expr (ColumnRef [''b'']) (ColumnRef [''c''])))"
  by (simp add: make_xor_expr_def makeBoolExpr_def)

section \<open>The range bounds of a variable-length relationship\<close>






section \<open>The traversal keeps its invariant\<close>

lemma wf_graph_entry:
  assumes "wf_graph g" and "get_vertex_entry g v = Some ve"
  shows "wf_vertex_entry g v ve"
proof -
  from assms(2) have "v \<in> fst ` set (vertex_table g)"
    by (auto simp: get_vertex_entry_def dest: map_of_SomeD intro: rev_image_eqI)
  with assms show ?thesis
    by (auto simp: wf_graph_def list_all_iff)
qed

text \<open>
  \<open>add_edges\<close> pushes, on top of both stacks, edges that are not visited and that
  leave the vertex it is called for; it changes neither the path nor the edge states.
\<close>

lemma add_edges_loop_effect:
  assumes "add_edges_loop contains path_ctx src es st = Inr st'"
  shows "\<exists>F. dfs_edge_queue st' = F @ dfs_edge_queue st
            \<and> dfs_vertex_queue st' = sources path_ctx src F @ dfs_vertex_queue st
            \<and> set F \<subseteq> set es
            \<and> (\<forall>e\<in>set F. \<not> edge_state_hashtable st e)
            \<and> dfs_path_queue st' = dfs_path_queue st
            \<and> edge_state_hashtable st' = edge_state_hashtable st"
  using assms
proof (induction es arbitrary: st)
  case Nil
  then show ?case by (auto simp: sources_def intro: exI [of _ "[]"])
next
  case (Cons e es)
  from Cons.prems obtain ee where ee: "get_edge_entry (ggctx path_ctx) e = Some ee"
    by (auto split: option.splits)
  define st1 where "st1 =
    (if \<not> edge_state_hashtable st e \<and> check_edge_constraints contains path_ctx ee
     then st\<lparr>dfs_vertex_queue :=
                (if edge_direction path_ctx = CYPHER_REL_DIR_NONE
                 then src # dfs_vertex_queue st else dfs_vertex_queue st),
              dfs_edge_queue := e # dfs_edge_queue st\<rparr>
     else st)"
  from Cons.prems ee have "add_edges_loop contains path_ctx src es st1 = Inr st'"
    by (simp add: st1_def)
  from Cons.IH [OF this] obtain F where F:
    "dfs_edge_queue st' = F @ dfs_edge_queue st1"
    "dfs_vertex_queue st' = sources path_ctx src F @ dfs_vertex_queue st1"
    "set F \<subseteq> set es"
    "\<forall>e\<in>set F. \<not> edge_state_hashtable st1 e"
    "dfs_path_queue st' = dfs_path_queue st1"
    "edge_state_hashtable st' = edge_state_hashtable st1"
    by blast
  show ?case
  proof (cases "\<not> edge_state_hashtable st e \<and> check_edge_constraints contains path_ctx ee")
    case True
    then have "dfs_edge_queue st1 = e # dfs_edge_queue st"
      and "dfs_vertex_queue st1 = sources path_ctx src [e] @ dfs_vertex_queue st"
      and "dfs_path_queue st1 = dfs_path_queue st"
      and "edge_state_hashtable st1 = edge_state_hashtable st"
      by (simp_all add: st1_def sources_def)
    with F True show ?thesis
      by (intro exI [of _ "F @ [e]"]) (auto simp: sources_def replicate_append_same)
  next
    case False
    then have "st1 = st" by (simp add: st1_def)
    with F show ?thesis by (intro exI [of _ F]) auto
  qed
qed

lemma add_edges_loop_entries:
  assumes "add_edges_loop contains path_ctx src es st = Inr st'"
  shows "\<forall>e\<in>set es. get_edge_entry (ggctx path_ctx) e \<noteq> None"
  using assms
  by (induction es arbitrary: st) (auto split: option.splits)

lemma add_edges_effect:
  assumes wf: "wf_graph (ggctx path_ctx)"
    and add: "add_edges contains path_ctx st v = Inr st'"
  shows "\<exists>F. dfs_edge_queue st' = F @ dfs_edge_queue st
            \<and> dfs_vertex_queue st' = sources path_ctx v F @ dfs_vertex_queue st
            \<and> (\<forall>e\<in>set F. \<not> edge_state_hashtable st e \<and> leaves_from path_ctx v e)
            \<and> dfs_path_queue st' = dfs_path_queue st
            \<and> edge_state_hashtable st' = edge_state_hashtable st"
proof -
  from add obtain ve where ve: "get_vertex_entry (ggctx path_ctx) v = Some ve"
    by (auto simp: add_edges_def split: option.splits)
  define es where "es =
    (if edge_direction path_ctx \<noteq> CYPHER_REL_DIR_LEFT then edges_out ve else [])
    @ (if edge_direction path_ctx \<noteq> CYPHER_REL_DIR_RIGHT then edges_in ve else [])
    @ edges_self ve"
  from add ve have loop: "add_edges_loop contains path_ctx (vertex_entry_id ve) es st = Inr st'"
    by (simp add: add_edges_def es_def Let_def)
  from wf_graph_entry [OF wf ve] have wfv: "wf_vertex_entry (ggctx path_ctx) v ve" .
  then have id: "vertex_entry_id ve = v" by (simp add: wf_vertex_entry_def)
  have inc: "leaves_from path_ctx v e" if "e \<in> set es" for e
  proof -
    from add_edges_loop_entries [OF loop] that
    obtain ee where ee: "get_edge_entry (ggctx path_ctx) e = Some ee" by auto
    from that wfv ee show ?thesis
      by (cases "edge_direction path_ctx")
         (auto simp: es_def wf_vertex_entry_def list_all_iff starts_at_def ends_at_def
                     leaves_from_def split: if_splits)
  qed
  from add_edges_loop_effect [OF loop] id inc show ?thesis by (metis subsetD)
qed

text \<open>
  The shape of the stacks, read by the length of the path; then what the loop needs of
  it: the top edge, when it is not in the path, leaves the end of the path; an edge on
  top that is in the path is the last edge of the path; popping, backtracking and
  pushing a new frame keep the shape.
\<close>

lemma frames_Nil_iff:
  "frames path_ctx es vs [] =
     ((\<forall>e\<in>set es. leaves_from path_ctx (vsid path_ctx) e)
      \<and> vs = sources path_ctx (vsid path_ctx) es)"
  by (subst frames.simps) auto

lemma frames_Cons_iff:
  "frames path_ctx es vs (p # ps) =
     (\<exists>F es' vs'. es = F @ p # es'
        \<and> vs = sources path_ctx (path_end path_ctx (p # ps)) F @ vs'
        \<and> frames path_ctx (p # es') vs' ps \<and> p \<notin> set ps
        \<and> (\<forall>e\<in>set F. e \<notin> set (p # ps) \<and> leaves_from path_ctx (path_end path_ctx (p # ps)) e))"
  by (subst frames.simps) auto

lemma sources_Nil: "sources path_ctx v [] = []"
  by (simp add: sources_def)

lemma sources_Cons:
  "sources path_ctx v (e # F) =
     (if edge_direction path_ctx = CYPHER_REL_DIR_NONE then v # sources path_ctx v F else [])"
  by (simp add: sources_def)

lemma frames_top:
  assumes "frames path_ctx (e # es) vs ps" and "e \<notin> set ps"
  shows "leaves_from path_ctx (path_end path_ctx ps) e
       \<and> (edge_direction path_ctx = CYPHER_REL_DIR_NONE \<longrightarrow>
            vs \<noteq> [] \<and> hd vs = path_end path_ctx ps)"
proof (cases ps)
  case Nil
  with assms show ?thesis by (auto simp: frames_Nil_iff sources_Cons)
next
  case (Cons p ps')
  with assms have "frames path_ctx (e # es) vs (p # ps')" by simp
  then obtain F es' vs' where *: "e # es = F @ p # es'"
    "vs = sources path_ctx (path_end path_ctx (p # ps')) F @ vs'"
    "\<forall>x\<in>set F. x \<notin> set (p # ps') \<and> leaves_from path_ctx (path_end path_ctx (p # ps')) x"
    unfolding frames_Cons_iff by blast
  from *(1) assms(2) Cons obtain F' where F: "F = e # F'" by (cases F) auto
  with * Cons show ?thesis by (auto simp: sources_Cons)
qed

lemma frames_pop:
  assumes "frames path_ctx (e # es) vs ps" and "e \<notin> set ps"
  shows "frames path_ctx es (if edge_direction path_ctx = CYPHER_REL_DIR_NONE then tl vs else vs) ps"
proof (cases ps)
  case Nil
  with assms show ?thesis by (auto simp: frames_Nil_iff sources_Cons sources_def)
next
  case (Cons p ps')
  with assms have "frames path_ctx (e # es) vs (p # ps')" by simp
  then obtain F es' vs' where *: "e # es = F @ p # es'"
    "vs = sources path_ctx (path_end path_ctx (p # ps')) F @ vs'"
    "frames path_ctx (p # es') vs' ps'" "p \<notin> set ps'"
    "\<forall>x\<in>set F. x \<notin> set (p # ps') \<and> leaves_from path_ctx (path_end path_ctx (p # ps')) x"
    unfolding frames_Cons_iff by blast
  from *(1) assms(2) Cons obtain F' where F: "F = e # F'" and es: "es = F' @ p # es'"
    by (cases F) auto
  have "(if edge_direction path_ctx = CYPHER_REL_DIR_NONE then tl vs else vs)
          = sources path_ctx (path_end path_ctx (p # ps')) F' @ vs'"
    using *(2) F by (simp add: sources_def)
  moreover have "\<forall>x\<in>set F'. x \<notin> set (p # ps')
                   \<and> leaves_from path_ctx (path_end path_ctx (p # ps')) x"
    using *(5) F by simp
  ultimately show ?thesis
    unfolding Cons frames_Cons_iff using es *(3,4) by blast
qed

lemma frames_backtrack:
  assumes "frames path_ctx (p # es) vs (p # ps)"
  shows "frames path_ctx (p # es) vs ps \<and> p \<notin> set ps"
proof -
  from assms obtain F es' vs' where *: "p # es = F @ p # es'"
    "vs = sources path_ctx (path_end path_ctx (p # ps)) F @ vs'"
    "frames path_ctx (p # es') vs' ps" "p \<notin> set ps"
    "\<forall>x\<in>set F. x \<notin> set (p # ps) \<and> leaves_from path_ctx (path_end path_ctx (p # ps)) x"
    unfolding frames_Cons_iff by blast
  have "F = []"
  proof (cases F)
    case (Cons x F')
    with *(1,5) show ?thesis by auto
  qed simp
  with * show ?thesis by (simp add: sources_Nil)
qed

lemma frames_push:
  assumes "frames path_ctx (e # es) vs ps" and "e \<notin> set ps"
    and "\<forall>x\<in>set F. x \<notin> set (e # ps) \<and> leaves_from path_ctx (path_end path_ctx (e # ps)) x"
  shows "frames path_ctx (F @ e # es) (sources path_ctx (path_end path_ctx (e # ps)) F @ vs) (e # ps)"
  unfolding frames_Cons_iff using assms by blast

lemma frames_visit:
  assumes "frames path_ctx (e # es) vs ps" and "e \<notin> set ps"
  shows "frames path_ctx (e # es) vs (e # ps)"
proof -
  have "frames path_ctx ([] @ e # es) (sources path_ctx (path_end path_ctx (e # ps)) [] @ vs) (e # ps)"
    by (rule frames_push [OF assms]) simp
  then show ?thesis by (simp only: sources_Nil append_Nil)
qed

lemma get_next_vertex_path_end:
  assumes top: "leaves_from path_ctx (path_end path_ctx ps) e"
    and vs: "edge_direction path_ctx = CYPHER_REL_DIR_NONE \<longrightarrow>
               dfs_vertex_queue st \<noteq> [] \<and> hd (dfs_vertex_queue st) = path_end path_ctx ps"
    and ee: "get_edge_entry (ggctx path_ctx) e = Some ee"
    and nv: "get_next_vertex path_ctx st ee = Inr next_vertex_id"
  shows "next_vertex_id = path_end path_ctx (e # ps)"
proof (cases "edge_direction path_ctx")
  case CYPHER_REL_DIR_NONE
  with vs obtain parent rest where q: "dfs_vertex_queue st = parent # rest"
    and parent: "parent = path_end path_ctx ps"
    by (cases "dfs_vertex_queue st") auto
  with nv ee CYPHER_REL_DIR_NONE show ?thesis
    by (auto simp: get_next_vertex_def other_end_def split: if_splits)
next
  case CYPHER_REL_DIR_LEFT
  with nv ee top show ?thesis
    by (auto simp: get_next_vertex_def other_end_def leaves_from_def)
next
  case CYPHER_REL_DIR_RIGHT
  with nv ee top show ?thesis
    by (auto simp: get_next_vertex_def other_end_def leaves_from_def)
next
  case CYPHER_REL_DIR_OTHER
  with nv show ?thesis by (simp add: get_next_vertex_def)
qed

lemma frames_top_visited:
  assumes "frames path_ctx (e # es) vs (p # ps)" and "e \<in> set (p # ps)"
  shows "e = p"
proof -
  from assms(1) obtain F es' where *: "e # es = F @ p # es'"
    "\<forall>x\<in>set F. x \<notin> set (p # ps) \<and> leaves_from path_ctx (path_end path_ctx (p # ps)) x"
    unfolding frames_Cons_iff by blast
  show ?thesis
  proof (cases F)
    case Nil
    with *(1) show ?thesis by simp
  next
    case (Cons x F')
    with * assms(2) show ?thesis by auto
  qed
qed

text \<open>
  The two branches of the loop body, as changes of the state.
\<close>

lemma dfs_visited_edge_effect:
  assumes "dfs_visited_edge path_ctx st e rest = Inr (found, st')"
  shows "\<exists>p ps. dfs_path_queue st = p # ps \<and> \<not> found
           \<and> dfs_edge_queue st' = rest
           \<and> dfs_path_queue st' = (if e = p then ps else p # ps)
           \<and> edge_state_hashtable st' =
               (if e = p then (edge_state_hashtable st)(e := False) else edge_state_hashtable st)
           \<and> (if edge_direction path_ctx = CYPHER_REL_DIR_NONE
               then dfs_vertex_queue st \<noteq> [] \<and> dfs_vertex_queue st' = tl (dfs_vertex_queue st)
               else dfs_vertex_queue st' = dfs_vertex_queue st)"
proof (cases "dfs_path_queue st")
  case Nil
  with assms show ?thesis by (simp add: dfs_visited_edge_def)
next
  case (Cons p ps)
  show ?thesis
  proof (cases "edge_direction path_ctx = CYPHER_REL_DIR_NONE")
    case True
    with assms Cons show ?thesis
      by (cases "dfs_vertex_queue st"; cases "e = p")
         (auto simp: dfs_visited_edge_def)
  next
    case False
    with assms Cons show ?thesis
      by (cases "e = p") (auto simp: dfs_visited_edge_def)
  qed
qed

lemma dfs_new_edge_effect:
  assumes "dfs_new_edge contains path_ctx st e = Inr (found, st')"
  shows "\<exists>ee nv.
           get_edge_entry (ggctx path_ctx) e = Some ee
           \<and> get_next_vertex path_ctx
                (st\<lparr>edge_state_hashtable := (edge_state_hashtable st)(e := True),
                    dfs_path_queue := e # dfs_path_queue st\<rparr>) ee = Inr nv
           \<and> (found \<longrightarrow> nv = veid path_ctx
                 \<and> lidx path_ctx \<le> int (length (dfs_path_queue st)) + 1
                 \<and> (uidx_infinite path_ctx \<or> int (length (dfs_path_queue st)) + 1 \<le> uidx path_ctx))
           \<and> (st' = st\<lparr>edge_state_hashtable := (edge_state_hashtable st)(e := True),
                        dfs_path_queue := e # dfs_path_queue st\<rparr>
                \<or> add_edges contains path_ctx
                     (st\<lparr>edge_state_hashtable := (edge_state_hashtable st)(e := True),
                         dfs_path_queue := e # dfs_path_queue st\<rparr>) nv = Inr st')"
proof -
  define st1 where "st1 = st\<lparr>edge_state_hashtable := (edge_state_hashtable st)(e := True),
                              dfs_path_queue := e # dfs_path_queue st\<rparr>"
  from assms obtain ee where ee: "get_edge_entry (ggctx path_ctx) e = Some ee"
    by (cases "get_edge_entry (ggctx path_ctx) e") (simp_all add: dfs_new_edge_def Let_def)
  from assms ee obtain nv where nv: "get_next_vertex path_ctx st1 ee = Inr nv"
    by (cases "get_next_vertex path_ctx st1 ee") (simp_all add: dfs_new_edge_def Let_def st1_def)
  have len: "int (length (dfs_path_queue st1)) = int (length (dfs_path_queue st)) + 1"
    by (simp add: st1_def)
  let ?size = "int (length (dfs_path_queue st)) + 1"
  let ?found = "nv = veid path_ctx \<and> ?size \<ge> lidx path_ctx
                \<and> (uidx_infinite path_ctx \<or> ?size \<le> uidx path_ctx)"
  from assms ee nv have res:
    "(if nv = veid path_ctx \<and> \<not> uidx_infinite path_ctx \<and> ?size > uidx path_ctx
      then Inr (False, st1)
      else if uidx_infinite path_ctx \<or> ?size < uidx path_ctx
      then (case add_edges contains path_ctx st1 nv of
              Inl err \<Rightarrow> Inl err
            | Inr st2 \<Rightarrow> Inr (?found, st2))
      else Inr (?found, st1)) = Inr (found, st')"
    by (simp add: dfs_new_edge_def Let_def st1_def [symmetric] len)
  have "(found \<longrightarrow> ?found) \<and> (st' = st1 \<or> add_edges contains path_ctx st1 nv = Inr st')"
  proof (cases "nv = veid path_ctx \<and> \<not> uidx_infinite path_ctx \<and> ?size > uidx path_ctx")
    case True
    with res show ?thesis by simp
  next
    case c1: False
    show ?thesis
    proof (cases "uidx_infinite path_ctx \<or> ?size < uidx path_ctx")
      case True
      with c1 res show ?thesis
        by (cases "add_edges contains path_ctx st1 nv") auto
    next
      case False
      with c1 res show ?thesis by auto
    qed
  qed
  with ee nv show ?thesis unfolding st1_def by blast
qed

text \<open>
  Every iteration keeps the invariant, and when it sets \<open>found\<close> the path leads to
  \<open>veid\<close> within the bounds; so does the loop, by induction on the number of
  iterations.
\<close>

lemma dfs_iteration_inv:
  assumes wf: "wf_graph (ggctx path_ctx)"
    and inv: "dfs_inv path_ctx st"
    and it: "dfs_iteration contains path_ctx st = Inr (found, st')"
  shows "dfs_inv path_ctx st' \<and> (found \<longrightarrow> path_found path_ctx st')"
proof -
  from it obtain e rest where es: "dfs_edge_queue st = e # rest"
    by (cases "dfs_edge_queue st") (simp_all add: dfs_iteration_def)
  from inv have fr: "frames path_ctx (e # rest) (dfs_vertex_queue st) (dfs_path_queue st)"
    and dist: "distinct (dfs_path_queue st)"
    and tbl: "\<And>x. edge_state_hashtable st x = (x \<in> set (dfs_path_queue st))"
    by (simp_all add: dfs_inv_def es)
  show ?thesis
  proof (cases "edge_state_hashtable st e")
    case True
    with it es have "dfs_visited_edge path_ctx st e rest = Inr (found, st')"
      by (simp add: dfs_iteration_def)
    from dfs_visited_edge_effect [OF this] obtain p ps where
      ps: "dfs_path_queue st = p # ps" and nf: "\<not> found"
      and es': "dfs_edge_queue st' = rest"
      and ps': "dfs_path_queue st' = (if e = p then ps else p # ps)"
      and tbl': "edge_state_hashtable st' =
               (if e = p then (edge_state_hashtable st)(e := False) else edge_state_hashtable st)"
      and vs': "if edge_direction path_ctx = CYPHER_REL_DIR_NONE
               then dfs_vertex_queue st \<noteq> [] \<and> dfs_vertex_queue st' = tl (dfs_vertex_queue st)
               else dfs_vertex_queue st' = dfs_vertex_queue st"
      by blast
    from True tbl ps have "e \<in> set (p # ps)" by simp
    with fr ps have ep: "e = p" by (auto dest: frames_top_visited)
    from fr ps ep have "frames path_ctx (p # rest) (dfs_vertex_queue st) (p # ps)" by simp
    from frames_backtrack [OF this]
    have fr1: "frames path_ctx (p # rest) (dfs_vertex_queue st) ps" and pn: "p \<notin> set ps"
      by simp_all
    from frames_pop [OF fr1 pn] vs'
    have "frames path_ctx rest (dfs_vertex_queue st') ps" by (auto split: if_splits)
    moreover from dist ps have "distinct ps" by simp
    moreover have "\<forall>x. edge_state_hashtable st' x = (x \<in> set ps)"
      using tbl' ep tbl ps pn by auto
    ultimately show ?thesis using nf es' ps' ep by (simp add: dfs_inv_def)
  next
    case False
    with tbl have en: "e \<notin> set (dfs_path_queue st)" by simp
    define st1 where "st1 = st\<lparr>edge_state_hashtable := (edge_state_hashtable st)(e := True),
                                dfs_path_queue := e # dfs_path_queue st\<rparr>"
    from False it es have "dfs_new_edge contains path_ctx st e = Inr (found, st')"
      by (simp add: dfs_iteration_def)
    from dfs_new_edge_effect [OF this] obtain ee nv where
      ee: "get_edge_entry (ggctx path_ctx) e = Some ee"
      and nv: "get_next_vertex path_ctx st1 ee = Inr nv"
      and fnd: "found \<longrightarrow> nv = veid path_ctx
                 \<and> lidx path_ctx \<le> int (length (dfs_path_queue st)) + 1
                 \<and> (uidx_infinite path_ctx \<or> int (length (dfs_path_queue st)) + 1 \<le> uidx path_ctx)"
      and st': "st' = st1 \<or> add_edges contains path_ctx st1 nv = Inr st'"
      unfolding st1_def by blast
    from frames_top [OF fr en]
    have top: "leaves_from path_ctx (path_end path_ctx (dfs_path_queue st)) e"
      and vs: "edge_direction path_ctx = CYPHER_REL_DIR_NONE \<longrightarrow>
                 dfs_vertex_queue st1 \<noteq> [] \<and> hd (dfs_vertex_queue st1) = path_end path_ctx (dfs_path_queue st)"
      by (simp_all add: st1_def)
    from get_next_vertex_path_end [OF top vs ee nv]
    have nve: "nv = path_end path_ctx (e # dfs_path_queue st)" .
    from nv have dir: "edge_direction path_ctx \<noteq> CYPHER_REL_DIR_OTHER"
      by (auto simp: get_next_vertex_def)
    have inv1: "dfs_inv path_ctx st1"
      using frames_visit [OF fr en] dist en tbl
      by (auto simp: dfs_inv_def st1_def es)
    have p1: "dfs_path_queue st1 = e # dfs_path_queue st" by (simp add: st1_def)
    from st' show ?thesis
    proof
      assume "st' = st1"
      with inv1 fnd nve p1 dir show ?thesis by (auto simp: path_found_def)
    next
      assume "add_edges contains path_ctx st1 nv = Inr st'"
      from add_edges_effect [OF wf this] obtain F where
        F: "dfs_edge_queue st' = F @ dfs_edge_queue st1"
        "dfs_vertex_queue st' = sources path_ctx nv F @ dfs_vertex_queue st1"
        "\<forall>x\<in>set F. \<not> edge_state_hashtable st1 x \<and> leaves_from path_ctx nv x"
        "dfs_path_queue st' = dfs_path_queue st1"
        "edge_state_hashtable st' = edge_state_hashtable st1"
        by blast
      have "\<forall>x\<in>set F. x \<notin> set (e # dfs_path_queue st)
              \<and> leaves_from path_ctx (path_end path_ctx (e # dfs_path_queue st)) x"
        using F(3) inv1 nve p1 by (auto simp: dfs_inv_def)
      from frames_push [OF fr en this]
      have "frames path_ctx (dfs_edge_queue st') (dfs_vertex_queue st') (dfs_path_queue st')"
        using F nve p1 by (simp add: st1_def es)
      with inv1 F(4,5) have "dfs_inv path_ctx st'" by (simp add: dfs_inv_def)
      with fnd nve p1 F(4) dir show ?thesis by (auto simp: path_found_def)
    qed
  qed
qed

lemma dfs_find_a_path_between_inv:
  assumes wf: "wf_graph (ggctx path_ctx)"
    and inv: "dfs_inv path_ctx st"
    and run: "dfs_find_a_path_between fuel contains path_ctx st = Some (Inr (found, st'))"
  shows "dfs_inv path_ctx st' \<and> (found \<longrightarrow> path_found path_ctx st')"
  using inv run
proof (induction fuel arbitrary: st)
  case 0
  then show ?case by simp
next
  case (Suc fuel)
  show ?case
  proof (cases "dfs_edge_queue st = []")
    case True
    with Suc.prems show ?thesis by auto
  next
    case False
    with Suc.prems(2) obtain f1 st1 where
      it: "dfs_iteration contains path_ctx st = Inr (f1, st1)"
      by (cases "dfs_iteration contains path_ctx st") auto
    from dfs_iteration_inv [OF wf Suc.prems(1) it]
    have inv1: "dfs_inv path_ctx st1" and f: "f1 \<longrightarrow> path_found path_ctx st1" by simp_all
    show ?thesis
    proof (cases f1)
      case True
      with Suc.prems(2) False it inv1 f show ?thesis by auto
    next
      case f1: False
      with Suc.prems(2) False it
      have "dfs_find_a_path_between fuel contains path_ctx st1 = Some (Inr (found, st'))"
        by simp
      from Suc.IH [OF inv1 this] show ?thesis .
    qed
  qed
qed

text \<open>
  The path container: its odd positions are the path stack from the bottom, its last
  entry is the end of the path, and it is a walk of the graph.
\<close>

lemma fill_path_props:
  assumes "fill_path g v es = Inr arr"
  shows "path_edges (v # arr) = es
       \<and> last (v # arr) = fold (\<lambda>e v. other_end g v e) es v"
  using assms
proof (induction es arbitrary: v arr)
  case Nil
  then show ?case by simp
next
  case (Cons e es)
  from Cons.prems obtain ee where ee: "get_edge_entry g e = Some ee"
    by (cases "get_edge_entry g e") simp_all
  define w where "w = (if v = start_vertex_id ee then end_vertex_id ee else start_vertex_id ee)"
  from Cons.prems ee obtain arr' where arr': "fill_path g w es = Inr arr'"
    and arr: "arr = e # w # arr'"
    by (cases "fill_path g w es") (auto simp: Let_def w_def)
  have w: "w = other_end g v e" by (simp add: other_end_def ee w_def)
  from Cons.IH [OF arr'] arr w show ?case by simp
qed

lemma path_end_fold:
  "path_end path_ctx ps = fold (\<lambda>e v. other_end (ggctx path_ctx) v e) (rev ps) (vsid path_ctx)"
  by (induction ps) simp_all

lemma build_path_container_props:
  assumes "build_path_container path_ctx st = Inr vpc"
  shows "hd vpc = vsid path_ctx
       \<and> last vpc = path_end path_ctx (dfs_path_queue st)
       \<and> path_edges vpc = rev (dfs_path_queue st)"
proof -
  from assms obtain arr where
    arr: "fill_path (ggctx path_ctx) (vsid path_ctx) (rev (dfs_path_queue st)) = Inr arr"
    and vpc: "vpc = vsid path_ctx # arr"
    by (cases "fill_path (ggctx path_ctx) (vsid path_ctx) (rev (dfs_path_queue st))")
       (auto simp: build_path_container_def)
  from fill_path_props [OF arr] vpc show ?thesis by (simp add: path_end_fold)
qed

lemma frames_path_connected:
  "frames path_ctx es vs ps \<Longrightarrow> path_connected path_ctx ps"
proof (induction ps arbitrary: es vs)
  case Nil
  then show ?case by simp
next
  case (Cons p ps)
  from Cons.prems obtain es' vs' where fr: "frames path_ctx (p # es') vs' ps" and pn: "p \<notin> set ps"
    unfolding frames_Cons_iff by blast
  from frames_top [OF fr pn] Cons.IH [OF fr] show ?case by simp
qed

lemma walk_from_snoc:
  "walk_from path_ctx v (es @ [e]) =
     (walk_from path_ctx v es
      \<and> leaves_from path_ctx (fold (\<lambda>e v. other_end (ggctx path_ctx) v e) es v) e)"
  by (induction es arbitrary: v) auto

lemma path_connected_walk_from:
  "path_connected path_ctx ps \<Longrightarrow> walk_from path_ctx (vsid path_ctx) (rev ps)"
  by (induction ps) (auto simp: walk_from_snoc path_end_fold)

lemma fill_path_is_walk:
  assumes "fill_path (ggctx path_ctx) v es = Inr arr"
    and "walk_from path_ctx v es"
    and "edge_direction path_ctx \<noteq> CYPHER_REL_DIR_OTHER"
  shows "is_walk (ggctx path_ctx) (v # arr)"
  using assms(1,2)
proof (induction es arbitrary: v arr)
  case Nil
  then show ?case by simp
next
  case (Cons e es)
  from Cons.prems obtain ee where ee: "get_edge_entry (ggctx path_ctx) e = Some ee"
    by (cases "get_edge_entry (ggctx path_ctx) e") simp_all
  define w where "w = (if v = start_vertex_id ee then end_vertex_id ee else start_vertex_id ee)"
  from Cons.prems ee obtain arr' where arr': "fill_path (ggctx path_ctx) w es = Inr arr'"
    and arr: "arr = e # w # arr'"
    by (cases "fill_path (ggctx path_ctx) w es") (auto simp: Let_def w_def)
  have w: "w = other_end (ggctx path_ctx) v e" by (simp add: other_end_def ee w_def)
  from Cons.prems(2) have lf: "leaves_from path_ctx v e"
    and wf': "walk_from path_ctx w es" by (simp_all add: w)
  from lf ee assms(3) have "start_vertex_id ee = v \<or> end_vertex_id ee = v"
    by (cases "edge_direction path_ctx") (auto simp: leaves_from_def)
  then have "(start_vertex_id ee = v \<and> end_vertex_id ee = w)
           \<or> (start_vertex_id ee = w \<and> end_vertex_id ee = v)"
    by (auto simp: w_def)
  with Cons.IH [OF arr' wf'] ee arr show ?case by simp
qed

text \<open>
  The state \<open>build_vle_context\<close> leaves satisfies the invariant, and every call of the
  set-returning function keeps it.
\<close>

lemma build_vle_context_inv:
  assumes wf: "wf_graph (arg_graph args)"
    and ctx: "build_vle_context contains args = Inr (path_ctx, st0)"
  shows "dfs_inv path_ctx st0 \<and> ggctx path_ctx = arg_graph args
       \<and> vsid path_ctx = vertex_id (arg_start args) \<and> veid path_ctx = vertex_id (arg_end args)
       \<and> vle_range (arg_lidx args) (arg_uidx args)
           = Inr (lidx path_ctx, uidx path_ctx, uidx_infinite path_ctx)"
proof -
  from ctx obtain lo hi unbounded where
    rng: "vle_range (arg_lidx args) (arg_uidx args) = Inr (lo, hi, unbounded)"
    by (cases "vle_range (arg_lidx args) (arg_uidx args)") (auto simp: build_vle_context_def)
  define c where "c = \<lparr>ggctx = arg_graph args,
                           vsid = vertex_id (arg_start args),
                           veid = vertex_id (arg_end args),
                           label_name = arg_label args,
                           properties = arg_properties args,
                           lidx = lo, uidx = hi, uidx_infinite = unbounded,
                           edge_direction = arg_direction args\<rparr>"
  define s where "s = \<lparr>edge_state_hashtable = (\<lambda>e. False),
                     dfs_vertex_queue = [], dfs_edge_queue = [], dfs_path_queue = []\<rparr>"
  from ctx rng have "(case load_initial_dfs_queues contains c s of
                Inl err \<Rightarrow> Inl err
              | Inr st0 \<Rightarrow> Inr (c, st0)) = Inr (path_ctx, st0)"
    unfolding build_vle_context_def Let_def c_def s_def by simp
  then have ld: "load_initial_dfs_queues contains c s = Inr st0" and pc: "path_ctx = c"
    by (cases "load_initial_dfs_queues contains c s"; simp)+
  have wfc: "wf_graph (ggctx c)" using wf by (simp add: c_def)
  have "dfs_inv c st0"
  proof (cases "do_vsid_and_veid_exist c")
    case False
    with ld have "st0 = s" by (simp add: load_initial_dfs_queues_def)
    then show ?thesis by (simp add: dfs_inv_def s_def frames_Nil_iff sources_Nil)
  next
    case True
    with ld have "add_edges contains c s (vsid c) = Inr st0"
      by (simp add: load_initial_dfs_queues_def)
    from add_edges_effect [OF wfc this] obtain F where
      "dfs_edge_queue st0 = F @ dfs_edge_queue s"
      "dfs_vertex_queue st0 = sources c (vsid c) F @ dfs_vertex_queue s"
      "\<forall>x\<in>set F. \<not> edge_state_hashtable s x \<and> leaves_from c (vsid c) x"
      "dfs_path_queue st0 = dfs_path_queue s"
      "edge_state_hashtable st0 = edge_state_hashtable s"
      by blast
    then show ?thesis by (simp add: dfs_inv_def s_def frames_Nil_iff)
  qed
  with pc rng show ?thesis by (simp add: c_def)
qed

lemma gtype_vle_call_inv:
  assumes wf: "wf_graph (ggctx path_ctx)"
    and inv: "dfs_inv path_ctx st"
    and call: "gtype_vle_call fuel contains path_ctx st = Some (Inr (SRF_RETURN_NEXT vpc, st'))"
  shows "dfs_inv path_ctx st'
       \<and> lidx path_ctx \<le> int (length (path_edges vpc))
       \<and> (uidx_infinite path_ctx \<or> int (length (path_edges vpc)) \<le> uidx path_ctx)
       \<and> hd vpc = vsid path_ctx \<and> last vpc = veid path_ctx
       \<and> distinct (path_edges vpc)
       \<and> is_walk (ggctx path_ctx) vpc"
proof -
  have "dfs_find_a_path_between fuel contains path_ctx st = Some (Inr (True, st'))
      \<and> build_path_container path_ctx st' = Inr vpc"
  proof (cases "dfs_find_a_path_between fuel contains path_ctx st")
    case None
    with call show ?thesis by (simp add: gtype_vle_call_def)
  next
    case (Some r)
    show ?thesis
    proof (cases r)
      case (Inl err)
      with Some call show ?thesis by (simp add: gtype_vle_call_def)
    next
      case (Inr fs)
      obtain f s where fs: "fs = (f, s)" by (cases fs)
      with Some Inr call have
        r: "(if f then (case build_path_container path_ctx s of
               Inl err \<Rightarrow> Some (Inl err)
             | Inr vpc \<Rightarrow> Some (Inr (SRF_RETURN_NEXT vpc, s)))
          else Some (Inr (SRF_RETURN_DONE, s))) = Some (Inr (SRF_RETURN_NEXT vpc, st'))"
        by (simp add: gtype_vle_call_def)
      then have "f \<and> s = st' \<and> build_path_container path_ctx s = Inr vpc"
        by (cases f; cases "build_path_container path_ctx s") simp_all
      with Some Inr fs show ?thesis by auto
    qed
  qed
  then have run: "dfs_find_a_path_between fuel contains path_ctx st = Some (Inr (True, st'))"
    and vpc: "build_path_container path_ctx st' = Inr vpc"
    by simp_all
  from dfs_find_a_path_between_inv [OF wf inv run]
  have inv': "dfs_inv path_ctx st'" and pf: "path_found path_ctx st'" by simp_all
  from build_path_container_props [OF vpc]
  have props: "hd vpc = vsid path_ctx" "last vpc = path_end path_ctx (dfs_path_queue st')"
    "path_edges vpc = rev (dfs_path_queue st')" by simp_all
  from inv' have "path_connected path_ctx (dfs_path_queue st')"
    by (auto simp: dfs_inv_def dest: frames_path_connected)
  then have wk: "walk_from path_ctx (vsid path_ctx) (rev (dfs_path_queue st'))"
    by (rule path_connected_walk_from)
  from vpc obtain arr where
    arr: "fill_path (ggctx path_ctx) (vsid path_ctx) (rev (dfs_path_queue st')) = Inr arr"
    and v: "vpc = vsid path_ctx # arr"
    by (cases "fill_path (ggctx path_ctx) (vsid path_ctx) (rev (dfs_path_queue st'))")
       (auto simp: build_path_container_def)
  from pf have dir: "edge_direction path_ctx \<noteq> CYPHER_REL_DIR_OTHER"
    by (simp add: path_found_def)
  from fill_path_is_walk [OF arr wk dir] v have "is_walk (ggctx path_ctx) vpc" by simp
  with inv' pf props show ?thesis by (simp add: path_found_def dfs_inv_def)
qed

lemma gtype_vle_calls_inv:
  assumes wf: "wf_graph (ggctx path_ctx)"
    and inv: "dfs_inv path_ctx st"
    and vpc: "vpc \<in> set (gtype_vle_calls fuel contains path_ctx n st)"
  shows "lidx path_ctx \<le> int (length (path_edges vpc))
       \<and> (uidx_infinite path_ctx \<or> int (length (path_edges vpc)) \<le> uidx path_ctx)
       \<and> hd vpc = vsid path_ctx \<and> last vpc = veid path_ctx
       \<and> distinct (path_edges vpc)
       \<and> is_walk (ggctx path_ctx) vpc"
  using inv vpc
proof (induction n arbitrary: st)
  case 0
  then show ?case by simp
next
  case (Suc n)
  have "\<exists>v1 st1. gtype_vle_call fuel contains path_ctx st = Some (Inr (SRF_RETURN_NEXT v1, st1))
           \<and> (vpc = v1 \<or> vpc \<in> set (gtype_vle_calls fuel contains path_ctx n st1))"
  proof (cases "gtype_vle_call fuel contains path_ctx st")
    case None
    with Suc.prems(2) show ?thesis by simp
  next
    case (Some r)
    show ?thesis
    proof (cases r)
      case (Inl err)
      with Some Suc.prems(2) show ?thesis by simp
    next
      case (Inr rs)
      obtain res s where rs: "rs = (res, s)" by (cases rs)
      show ?thesis
      proof (cases res)
        case (SRF_RETURN_NEXT v1)
        with Some Inr rs Suc.prems(2) show ?thesis by auto
      next
        case SRF_RETURN_DONE
        with Some Inr rs Suc.prems(2) show ?thesis by simp
      qed
    qed
  qed
  then obtain v1 st1 where
    call: "gtype_vle_call fuel contains path_ctx st = Some (Inr (SRF_RETURN_NEXT v1, st1))"
    and mem: "vpc = v1 \<or> vpc \<in> set (gtype_vle_calls fuel contains path_ctx n st1)"
    by blast
  from gtype_vle_call_inv [OF wf Suc.prems(1) call] mem Suc.IH [of st1]
  show ?case by blast
qed

text \<open>
  Claim C1. On a well-formed graph, every path container that a sequence of calls of
  \<open>gtype_vle\<close> yields has an edge count that is at least the lower bound and, unless
  the upper bound is infinite, at most the upper bound; it begins with the start vertex
  \<open>vsid\<close> and ends with the end vertex \<open>veid\<close>; it contains no edge id twice; and it
  is a walk of the graph, each edge joining the vertices written before and after it.
\<close>

theorem vle_yielded_paths:
  assumes wf: "wf_graph (arg_graph args)"
    and rng: "vle_range (arg_lidx args) (arg_uidx args) = Inr (lo, hi, unbounded)"
    and vpc: "vpc \<in> set (gtype_vle fuel contains args n)"
  shows "lo \<le> int (length (path_edges vpc))
       \<and> (unbounded \<or> int (length (path_edges vpc)) \<le> hi)
       \<and> hd vpc = vertex_id (arg_start args)
       \<and> last vpc = vertex_id (arg_end args)
       \<and> distinct (path_edges vpc)
       \<and> is_walk (arg_graph args) vpc"
proof (cases "build_vle_context contains args")
  case (Inl err)
  with vpc show ?thesis by (simp add: gtype_vle_def)
next
  case (Inr cs)
  obtain path_ctx st0 where cs: "cs = (path_ctx, st0)" by (cases cs)
  from build_vle_context_inv [OF wf] Inr cs
  have inv: "dfs_inv path_ctx st0" and g: "ggctx path_ctx = arg_graph args"
    and v: "vsid path_ctx = vertex_id (arg_start args)" "veid path_ctx = vertex_id (arg_end args)"
    and r: "vle_range (arg_lidx args) (arg_uidx args)
           = Inr (lidx path_ctx, uidx path_ctx, uidx_infinite path_ctx)"
    by simp_all
  from vpc Inr cs have "vpc \<in> set (gtype_vle_calls fuel contains path_ctx n st0)"
    by (simp add: gtype_vle_def)
  from gtype_vle_calls_inv [OF _ inv this] wf g v r rng show ?thesis by simp
qed

theorem vle_yielded_paths_witness:
  "wf_graph (arg_graph (example_args CYPHER_REL_DIR_RIGHT (ArgInteger 2) (ArgInteger 3)))
   \<and> vle_range (arg_lidx (example_args CYPHER_REL_DIR_RIGHT (ArgInteger 2) (ArgInteger 3)))
        (arg_uidx (example_args CYPHER_REL_DIR_RIGHT (ArgInteger 2) (ArgInteger 3)))
       = Inr (2, 3, False)
   \<and> gtype_vle 20 no_constraint
        (example_args CYPHER_REL_DIR_RIGHT (ArgInteger 2) (ArgInteger 3)) 4
       = [[1, 10, 2, 13, 2, 11, 3], [1, 10, 2, 11, 3]]
   \<and> 2 \<le> int (length (path_edges [1, 10, 2, 13, 2, 11, 3]))
   \<and> (False \<or> int (length (path_edges [1, 10, 2, 13, 2, 11, 3])) \<le> 3)
   \<and> hd [1, 10, 2, 13, 2, 11, 3]
       = vertex_id (arg_start (example_args CYPHER_REL_DIR_RIGHT (ArgInteger 2) (ArgInteger 3)))
   \<and> last [1, 10, 2, 13, 2, 11, 3]
       = vertex_id (arg_end (example_args CYPHER_REL_DIR_RIGHT (ArgInteger 2) (ArgInteger 3)))
   \<and> distinct (path_edges [1, 10, 2, 13, 2, 11, 3])
   \<and> is_walk (arg_graph (example_args CYPHER_REL_DIR_RIGHT (ArgInteger 2) (ArgInteger 3)))
        [1, 10, 2, 13, 2, 11, 3]"
proof -
  let ?args = "example_args CYPHER_REL_DIR_RIGHT (ArgInteger 2) (ArgInteger 3)"
  have h1: "wf_graph (arg_graph ?args)"
    by code_simp
  have h2: "vle_range (arg_lidx ?args) (arg_uidx ?args) = Inr (2, 3, False)"
    by code_simp
  have run: "gtype_vle 20 no_constraint ?args 4 = [[1, 10, 2, 13, 2, 11, 3], [1, 10, 2, 11, 3]]"
    by code_simp
  then have h3: "[1, 10, 2, 13, 2, 11, 3] \<in> set (gtype_vle 20 no_constraint ?args 4)"
    by simp
  from vle_yielded_paths [OF h1 h2 h3] h1 h2 run show ?thesis by blast
qed

section \<open>Properties of the clause transformer\<close>

lemma wf_path_odd:
  "wf_path rest \<Longrightarrow>
     transform_match_entities_odd env (PathRel rel # rest)
       = rel_entity env rel # transform_match_entities_even env rest"
  by (cases rest rule: wf_path.cases) (auto simp: rel_entity_def)

lemma wf_path_entities:
  "wf_path elems \<Longrightarrow>
     length (transform_match_entities_even env elems) = 2 * length (path_rels elems) + 1
     \<and> concat (map (duplicate_edge_arg env) (transform_match_entities_even env elems))
         = map (rel_arg env) (path_rels elems)"
proof (induction elems rule: wf_path.induct)
  case (1 n)
  then show ?case
    by (simp add: handle_vertex_def make_transform_entity_def split: prod.splits)
next
  case (2 n rel rest)
  then have wf: "wf_path rest" by simp
  have v: "duplicate_edge_arg env (handle_vertex env n) = []"
    by (simp add: handle_vertex_def make_transform_entity_def split: prod.splits)
  have r: "duplicate_edge_arg env (rel_entity env rel) = [rel_arg env rel]"
    by (simp add: rel_entity_def rel_arg_def handle_edge_def transform_VLE_edge_entity_def
        make_transform_entity_def split: prod.splits)
  have "transform_match_entities_even env (PathNode n # PathRel rel # rest)
          = handle_vertex env n # rel_entity env rel # transform_match_entities_even env rest"
    using wf_path_odd [OF wf] by simp
  with 2 wf v r show ?case by simp
qed simp_all

text \<open>
  Claim C2, as the code has it: the predicate is made per path. A path the grammar
  builds with two or more relationships gets, after its join quals, exactly one call of
  \<open>_ag_enforce_edge_uniqueness\<close> whose arguments are the id accessors of its edges and
  the \<open>edges\<close> columns of its variable-length edges, in the order of the path; a path
  with one relationship or none gets only its join quals.
\<close>

theorem edge_uniqueness_per_path:
  assumes "wf_path (path_elems path)"
  shows "transform_match_path env path =
           make_path_join_quals env (transform_match_entities env path)
           @ (if length (path_rels (path_elems path)) > 1
              then [FuncCall [match_catalog_schema env, ''_ag_enforce_edge_uniqueness'']
                      (map (rel_arg env) (path_rels (path_elems path)))]
              else [])"
  using wf_path_entities [OF assms, of env]
  by (simp add: transform_match_path_def transform_match_entities_def Let_def
      prevent_duplicate_edges_def)

theorem edge_uniqueness_per_path_witness:
  "wf_path (path_elems (two_edge_path ''e1'' ''e2''))
   \<and> transform_match_path example_match_env (two_edge_path ''e1'' ''e2'') =
       [FuncCall [''postgraph'', ''_ag_enforce_edge_uniqueness'']
          [ColumnRef [''e1'', ''id''], ColumnRef [''e2'', ''id'']]]"
proof -
  have wf: "wf_path (path_elems (two_edge_path ''e1'' ''e2''))"
    by (simp add: two_edge_path_def)
  from edge_uniqueness_per_path [OF wf, of example_match_env] wf show ?thesis
    by (simp add: two_edge_path_def example_match_env_def rel_arg_def handle_edge_def
        make_transform_entity_def named_rel_def entity_name_def)
qed

text \<open>
  Claim C2 as stated asks for one predicate over the edges of all paths of the clause
  whenever the pattern has more than one edge in total. The pattern
  \<open>(a)-[e1]->(b), (c)-[e2]->(d)\<close> has two edges; no path has more than three
  entities, and no uniqueness predicate is among the quals.
\<close>

theorem edge_uniqueness_across_paths_counterexample:
  "length (concat (map (\<lambda>path. path_rels (path_elems path))
                     [one_edge_path ''e1'', one_edge_path ''e2''])) = 2
   \<and> filter is_uniqueness_call
        (transform_match_pattern_quals example_match_env
           [one_edge_path ''e1'', one_edge_path ''e2'']) = []"
  by (simp add: one_edge_path_def transform_match_pattern_quals_def transform_match_path_def
      transform_match_entities_def example_match_env_def Let_def)

lemma transform_create_path_loop_undirected:
  "list_ex (\<lambda>rel. rel_dir rel = CYPHER_REL_DIR_NONE) (path_rels elems) \<Longrightarrow>
     \<exists>err. transform_create_path_loop env in_path elems = Inl err"
proof (induction env in_path elems rule: transform_create_path_loop.induct)
  case (3 env in_path edge rest)
  show ?case
  proof (cases "rel_dir edge = CYPHER_REL_DIR_NONE")
    case True
    then have "\<exists>err. transform_create_cypher_edge env edge = Inl err"
      by (simp add: transform_create_cypher_edge_def)
    then show ?thesis by auto
  next
    case False
    with 3 show ?thesis by (auto split: sum.splits)
  qed
qed (auto split: sum.splits)

text \<open>
  Claim C9: the transformation of a \<open>CREATE\<close> pattern that contains an undirected
  relationship fails with an error, whatever the label cache, the previous clause and
  the transformation of nodes are; \<open>CREATE ()-[:X]-()\<close> fails with the error
  \<open>only directed relationships are allowed in CREATE\<close>.
\<close>

theorem create_undirected_fails:
  assumes "has_undirected pattern"
  shows "\<exists>err. transform_cypher_create_pattern env pattern = Inl err"
  using assms
proof (induction pattern)
  case Nil
  then show ?case by (simp add: has_undirected_def)
next
  case (Cons path rest)
  show ?case
  proof (cases "list_ex (\<lambda>rel. rel_dir rel = CYPHER_REL_DIR_NONE) (path_rels (path_elems path))")
    case True
    from transform_create_path_loop_undirected [OF this]
    obtain err where
      "transform_create_path_loop env (var_name path \<noteq> None) (path_elems path) = Inl err"
      by blast
    then have "\<exists>err. transform_cypher_create_path env path = Inl err"
      by (simp add: transform_cypher_create_path_def)
    then show ?thesis by auto
  next
    case False
    with Cons.prems have "has_undirected rest" by (simp add: has_undirected_def)
    from Cons.IH [OF this] show ?thesis by (auto split: sum.splits)
  qed
qed

theorem create_undirected_fails_witness:
  "has_undirected create_undirected_x
   \<and> (\<exists>err. transform_cypher_create_pattern example_create_env create_undirected_x = Inl err)
   \<and> transform_cypher_create_pattern example_create_env create_undirected_x
       = Inl OnlyDirectedRelationships"
proof -
  have h: "has_undirected create_undirected_x"
    by (simp add: has_undirected_def create_undirected_x_def)
  have "transform_cypher_create_pattern example_create_env create_undirected_x
       = Inl OnlyDirectedRelationships"
    by (simp add: create_undirected_x_def example_create_env_def anonymous_node_def
        transform_cypher_create_path_def transform_create_cypher_edge_def)
  with create_undirected_fails [OF h, of example_create_env] h show ?thesis by simp
qed

lemma transform_cypher_limit_accepts:
  assumes "transform_cypher_limit env n c = Inr (Some q)"
  shows "\<not> contain_vars_of_level env q 0"
  using assms
  by (auto simp: transform_cypher_limit_def split: option.splits sum.splits if_splits)

lemma transform_cypher_limit_rejects:
  assumes "transform_cypher_expr env e = Inr qual"
    and "coerce_to_specific_type env qual c = Inr qual'"
    and "contain_vars_of_level env qual' 0"
  shows "transform_cypher_limit env (Some e) c = Inl (LimitContainsVariables c)"
  using assms by (simp add: transform_cypher_limit_def)

text \<open>
  Claim C8: \<open>transform_cypher_limit\<close> transforms the expression and coerces it to
  \<open>int8\<close>; when the result contains a variable of the current query level it fails with
  the error \<open>argument of ... must not contain variables\<close>, so an expression it accepts
  contains none. \<open>transform_cypher_return\<close>, which \<open>WITH\<close> uses as well, applies it
  to \<open>SKIP\<close> and to \<open>LIMIT\<close>: when both are accepted, neither contains a variable
  of the current query.
\<close>

theorem skip_limit_reject_variables:
  assumes "transform_cypher_expr env e = Inr qual"
    and "coerce_to_specific_type env qual c = Inr qual'"
  shows "transform_cypher_limit env (Some e) c =
           (if contain_vars_of_level env qual' 0 then Inl (LimitContainsVariables c)
            else Inr (Some qual'))
       \<and> (\<forall>self limitOffset limitCount.
             return_skip_and_limit env self = Inr (limitOffset, limitCount) \<longrightarrow>
               (\<forall>q. limitOffset = Some q \<or> limitCount = Some q \<longrightarrow>
                      \<not> contain_vars_of_level env q 0))"
proof
  from assms show "transform_cypher_limit env (Some e) c =
           (if contain_vars_of_level env qual' 0 then Inl (LimitContainsVariables c)
            else Inr (Some qual'))"
    by (simp add: transform_cypher_limit_def)
next
  show "\<forall>self limitOffset limitCount.
             return_skip_and_limit env self = Inr (limitOffset, limitCount) \<longrightarrow>
               (\<forall>q. limitOffset = Some q \<or> limitCount = Some q \<longrightarrow>
                      \<not> contain_vars_of_level env q 0)"
  proof (intro allI impI)
    fix self limitOffset limitCount q
    assume r: "return_skip_and_limit env self = Inr (limitOffset, limitCount)"
      and q: "limitOffset = Some q \<or> limitCount = Some q"
    from r have "transform_cypher_limit env (return_skip self) ''SKIP'' = Inr limitOffset"
      and "transform_cypher_limit env (return_limit self) ''LIMIT'' = Inr limitCount"
      by (auto simp: return_skip_and_limit_def split: sum.splits)
    with q show "\<not> contain_vars_of_level env q 0"
      by (auto dest: transform_cypher_limit_accepts)
  qed
qed

theorem skip_limit_reject_variables_witness:
  "transform_cypher_expr example_limit_env (ColumnRef [''n'', ''age'']) = Inr (Var 0)
   \<and> coerce_to_specific_type example_limit_env (Var 0) ''LIMIT'' = Inr (FuncExpr ''int8'' [Var 0])
   \<and> transform_cypher_limit example_limit_env (Some (ColumnRef [''n'', ''age''])) ''LIMIT''
       = Inl (LimitContainsVariables ''LIMIT'')
   \<and> transform_cypher_limit example_limit_env (Some (A_Const (Integer 5))) ''LIMIT''
       = Inr (Some (FuncExpr ''int8'' [Const 5]))
   \<and> return_skip_and_limit example_limit_env
        \<lparr>return_distinct = False, return_items = [], return_order_by = [],
         return_skip = Some (A_Const (Integer 1)),
         return_limit = Some (ColumnRef [''n'', ''age''])\<rparr>
       = Inl (LimitContainsVariables ''LIMIT'')"
proof -
  have h1: "transform_cypher_expr example_limit_env (ColumnRef [''n'', ''age'']) = Inr (Var 0)"
    by (simp add: example_limit_env_def)
  have h2: "coerce_to_specific_type example_limit_env (Var 0) ''LIMIT''
              = Inr (FuncExpr ''int8'' [Var 0])"
    by (simp add: example_limit_env_def)
  have c: "contain_vars_of_level example_limit_env (FuncExpr ''int8'' [Var 0]) 0"
    by (simp add: example_limit_env_def)
  have a: "transform_cypher_limit example_limit_env (Some (A_Const (Integer 5))) ''LIMIT''
       = Inr (Some (FuncExpr ''int8'' [Const 5]))"
    by (simp add: transform_cypher_limit_def example_limit_env_def)
  have s: "transform_cypher_limit example_limit_env (Some (A_Const (Integer 1))) ''SKIP''
       = Inr (Some (FuncExpr ''int8'' [Const 1]))"
    by (simp add: transform_cypher_limit_def example_limit_env_def)
  from skip_limit_reject_variables [OF h1 h2] c
  have r: "transform_cypher_limit example_limit_env (Some (ColumnRef [''n'', ''age''])) ''LIMIT''
       = Inl (LimitContainsVariables ''LIMIT'')"
    by simp
  with s have "return_skip_and_limit example_limit_env
        \<lparr>return_distinct = False, return_items = [], return_order_by = [],
         return_skip = Some (A_Const (Integer 1)),
         return_limit = Some (ColumnRef [''n'', ''age''])\<rparr>
       = Inl (LimitContainsVariables ''LIMIT'')"
    by (simp add: return_skip_and_limit_def)
  with h1 h2 r a show ?thesis by simp
qed

text \<open>
  Claim C3 on the code: \<open>transform_cypher_with\<close> copies \<open>distinct\<close>, \<open>items\<close>,
  \<open>order_by\<close>, \<open>skip\<close> and \<open>limit\<close> into the \<open>RETURN\<close> node it wraps, and no
  more; nothing reads the \<open>where\<close> field of the \<open>WITH\<close> node. The query emitted for a
  \<open>WITH\<close> clause is therefore the same whatever its \<open>WHERE\<close> expression is, and the
  same as with no \<open>WHERE\<close> at all: no row is excluded by it.
\<close>

theorem with_where_has_no_effect:
  "transform_cypher_with env transform_cypher_return
     (Clause (CypherWith (self\<lparr>with_where := Some e\<rparr>)) prev)
   = transform_cypher_with env transform_cypher_return
       (Clause (CypherWith (self\<lparr>with_where := None\<rparr>)) prev)"
  by simp

lemma with_where_example:
  "transform_cypher_with example_where_env example_transform_return
     (example_with (Some (A_Expr AEXPR_OP [''>''] (Some (ColumnRef [''n'', ''age'']))
                            (A_Const (Integer 30)))))
   = Inr (Query [ColumnRef [''n'']] [] None)"
  by (simp add: example_with_def example_where_env_def)

end
